theory Spec2Isabelle
  imports Complex_Main "HOL-Library.AList" "HOL-Library.Multiset"
begin

section \<open>Data model of nix-store-clumpgc.py\<close>

text \<open>
  A generation is a pair of its id and its timestamp. Timestamps are timezone-aware UTC
  datetimes with a resolution of one second in the source; they are modelled as the number
  of seconds since the epoch, so that a \<open>timedelta\<close> is an integer number of seconds.
  Python floats are modelled as reals.
\<close>

type_synonym gen_id = int
type_synonym timestamp = int

datatype error =
  ZeroDivisionError | OSError | UnicodeDecodeError | JSONDecodeError | KeyError | TypeError

text \<open>\<open>d.get(k, default)\<close> on a dictionary.\<close>

definition dict_get :: "('k \<rightharpoonup> 'v) \<Rightarrow> 'k \<Rightarrow> 'v \<Rightarrow> 'v" where
  "dict_get m k d = (case m k of None \<Rightarrow> d | Some v \<Rightarrow> v)"

section \<open>Feature normalizer\<close>

text \<open>
  \<open>pct\<close> is the inner function of \<open>normalize\<close>; \<open>v\<close> is the sorted list of the values.
  The indices \<open>int(0.05*(len(v)-1))\<close> and \<open>int(0.95*(len(v)-1))\<close> are written with
  integer division: the truncated floating-point products agree with
  \<open>(n - 1) div 20\<close> and \<open>19 * (n - 1) div 20\<close>.
\<close>

definition pct :: "int list \<Rightarrow> int \<Rightarrow> real" where
  "pct v x =
     (if length v = 1 then 0
      else
        let p5 = v ! ((length v - 1) div 20);
            p95 = v ! ((19 * (length v - 1)) div 20)
        in if p95 = p5 then (if x \<le> p5 then 0 else 1)
           else max 0 (min 1 (real_of_int (x - p5) / real_of_int (p95 - p5))))"

definition normalize_vals :: "int list \<Rightarrow> (int \<rightharpoonup> real)" where
  "normalize_vals vals =
     (if vals = [] then Map.empty
      else (\<lambda>x. if x \<in> set vals then Some (pct (sort vals) x) else None))"

section \<open>Raw features and the activity score\<close>

text \<open>
  The loop of \<open>main\<close> over consecutive generations. \<open>cp\<close> is \<open>closure_paths\<close> (the set of
  store paths of a generation, empty when the query fails) and \<open>gd\<close> is
  \<open>git_lines_delta\<close> at the repository of the run; both are collaborators. The two
  dictionaries keep their insertion order, as Python's do.
\<close>

fun feature_loop ::
  "(gen_id \<Rightarrow> string set) \<Rightarrow> (timestamp \<Rightarrow> timestamp \<Rightarrow> int) \<Rightarrow> (gen_id \<times> timestamp) list \<Rightarrow>
   (gen_id \<times> int) list \<times> (gen_id \<times> int) list \<Rightarrow> (gen_id \<times> int) list \<times> (gen_id \<times> int) list" where
  "feature_loop cp gd (p # g # rest) (lines_delta, paths_delta) =
     feature_loop cp gd (g # rest)
       (AList.update (fst g) (gd (snd p) (snd g)) lines_delta,
        AList.update (fst g)
          (int (card (cp (fst g) - cp (fst p))) + int (card (cp (fst p) - cp (fst g))))
          paths_delta)"
| "feature_loop cp gd gens acc = acc"

text \<open>The scoring loop: \<open>i\<close> is the position of the generation in the sequence.\<close>

fun score_loop ::
  "(int \<rightharpoonup> real) \<Rightarrow> (int \<rightharpoonup> real) \<Rightarrow> (gen_id \<rightharpoonup> int) \<Rightarrow> (gen_id \<rightharpoonup> int) \<Rightarrow> nat \<Rightarrow>
   (gen_id \<times> timestamp) list \<Rightarrow> (gen_id \<rightharpoonup> real) \<Rightarrow> (gen_id \<rightharpoonup> real)" where
  "score_loop norm_lines norm_paths lines_delta paths_delta i [] score = score"
| "score_loop norm_lines norm_paths lines_delta paths_delta i ((gid, ts) # rest) score =
     score_loop norm_lines norm_paths lines_delta paths_delta (Suc i) rest
       (score(gid \<mapsto>
          (if i = 0 then 1 / 10
           else 1 / 10
                + 1 / 2 * dict_get norm_lines (dict_get lines_delta gid 0) 0
                + 2 / 5 * dict_get norm_paths (dict_get paths_delta gid 0) 0)))"

definition scores ::
  "(gen_id \<Rightarrow> string set) \<Rightarrow> (timestamp \<Rightarrow> timestamp \<Rightarrow> int) \<Rightarrow> (gen_id \<times> timestamp) list \<Rightarrow>
   (gen_id \<rightharpoonup> real)" where
  "scores cp gd gens =
     (let (lines_delta, paths_delta) = feature_loop cp gd gens ([], []);
          norm_lines = normalize_vals (map snd lines_delta);
          norm_paths = normalize_vals (map snd paths_delta)
      in score_loop norm_lines norm_paths (map_of lines_delta) (map_of paths_delta) 0 gens
           Map.empty)"

section \<open>Temporal smoother\<close>

definition floor_hour :: "timestamp \<Rightarrow> timestamp" where
  "floor_hour t = t - t mod 3600"

text \<open>The inner loop of \<open>kernel_smooth\<close>: the density at the grid time \<open>t\<close>.\<close>

definition density :: "(timestamp \<times> real) list \<Rightarrow> int \<Rightarrow> timestamp \<Rightarrow> real" where
  "density points s2 t =
     fold (\<lambda>(pt, sc) val.
             let dh = \<bar>real_of_int (pt - t)\<bar> / 3600
             in val + sc * exp (- (dh * dh) / real_of_int s2))
          points 0"

text \<open>
  \<open>kernel_smooth\<close>. The division by \<open>s2\<close> raises \<open>ZeroDivisionError\<close> when \<open>sigma_hours\<close>
  is 0 and the grid has an entry; \<open>range(hours)\<close> is empty when \<open>hours\<close> is not positive.
\<close>

definition kernel_smooth ::
  "(timestamp \<times> real) list \<Rightarrow> int \<Rightarrow> error + (timestamp \<times> real) list" where
  "kernel_smooth points sigma_hours =
     (if points = [] then Inr []
      else
        let start = floor_hour (fst (hd points));
            end = floor_hour (fst (last points));
            hours = (end - start) div 3600 + 1;
            s2 = 2 * sigma_hours ^ 2
        in if hours \<le> 0 then Inr []
           else if s2 = 0 then Inl ZeroDivisionError
           else Inr (map (\<lambda>i. (start + 3600 * int i, density points s2 (start + 3600 * int i)))
                       [0 ..< nat hours]))"

section \<open>Window selector\<close>

text \<open>The prefix sums \<open>pref\<close> of the densities, and the integral over the cells \<open>[i, j)\<close>.\<close>

fun pref_sums :: "real \<Rightarrow> real list \<Rightarrow> real list" where
  "pref_sums acc [] = [acc]"
| "pref_sums acc (v # vs) = acc # pref_sums (acc + v) vs"

definition area :: "real list \<Rightarrow> nat \<Rightarrow> nat \<Rightarrow> real" where
  "area pref i j = pref ! j - pref ! i"

fun first_unused :: "bool list \<Rightarrow> nat option" where
  "first_unused [] = None"
| "first_unused (f # fs) = (if \<not> f then Some 0 else map_option Suc (first_unused fs))"

text \<open>
  The loop over the candidate lengths \<open>L\<close>, with its \<open>break\<close> at the first length that
  does not fit the grid of \<open>n\<close> cells. \<open>best\<close> is \<open>None\<close> or the triple \<open>(i0, j, a)\<close>.
  The areas are differences of prefix sums; with the sums of reals of \<open>pref_sums\<close> a longer
  window over positive densities has the larger area, where the floating-point sums of the
  program can absorb small densities and leave the first of two lengths as the best. The
  loop is defined for every list \<open>pref\<close>, and what is proved of the selected windows holds
  for every \<open>pref\<close>, so for whichever length wins.
\<close>

fun scan_lengths ::
  "real list \<Rightarrow> nat \<Rightarrow> real \<Rightarrow> nat \<Rightarrow> nat list \<Rightarrow> (nat \<times> nat \<times> real) option \<Rightarrow>
   (nat \<times> nat \<times> real) option" where
  "scan_lengths pref n min_area i0 [] best = best"
| "scan_lengths pref n min_area i0 (L # Ls) best =
     (let j = i0 + L in
      if j > n then best
      else
        let a = area pref i0 j in
        if a \<ge> min_area \<and> (case best of None \<Rightarrow> True | Some (bi, bj, ba) \<Rightarrow> a > ba)
        then scan_lengths pref n min_area i0 Ls (Some (i0, j, a))
        else scan_lengths pref n min_area i0 Ls best)"

text \<open>\<open>for k in range(lo, hi): used[k] = True\<close>.\<close>

definition mark :: "bool list \<Rightarrow> nat \<Rightarrow> nat \<Rightarrow> bool list" where
  "mark used lo hi = fold (\<lambda>k u. u[k := True]) [lo ..< hi] used"

lemma length_mark: "length (mark used lo hi) = length used"
proof -
  have "length (fold (\<lambda>k u. u[k := True]) ks u) = length u" for ks and u :: "bool list"
    by (induction ks arbitrary: u) auto
  then show ?thesis by (simp add: mark_def)
qed

lemma nth_mark:
  assumes "k < length used"
  shows "mark used lo hi ! k = (used ! k \<or> (lo \<le> k \<and> k < hi))"
proof -
  have step: "k < length u \<Longrightarrow> u[a := True] ! k = (u ! k \<or> a = k)" for a and u :: "bool list"
    by (cases "a = k") auto
  have "k < length u \<Longrightarrow> fold (\<lambda>a u. u[a := True]) ks u ! k = (u ! k \<or> k \<in> set ks)"
    for ks and u :: "bool list"
  proof (induction ks arbitrary: u)
    case Nil
    then show ?case by simp
  next
    case (Cons a ks)
    from Cons.prems have "k < length (u[a := True])" by simp
    from Cons.IH [OF this] step [OF Cons.prems, of a] show ?case by auto
  qed
  from this [OF assms, of "[lo ..< hi]"] show ?thesis by (simp add: mark_def)
qed

lemma first_unused_Some:
  "first_unused used = Some i \<Longrightarrow> i < length used \<and> \<not> used ! i \<and> (\<forall>k < i. used ! k)"
proof (induction used arbitrary: i)
  case Nil
  then show ?case by simp
next
  case (Cons f fs)
  show ?case
  proof (cases f)
    case False
    with Cons.prems show ?thesis by simp
  next
    case True
    with Cons.prems obtain i' where i': "first_unused fs = Some i'" "i = Suc i'"
      by auto
    from Cons.IH [OF i'(1)] True i'(2) show ?thesis
      by (auto simp: nth_Cons split: nat.splits)
  qed
qed

lemma first_unused_None: "first_unused used = None \<Longrightarrow> \<forall>k < length used. used ! k"
proof (induction used)
  case Nil
  then show ?case by simp
next
  case (Cons f fs)
  then show ?case by (auto simp: nth_Cons split: if_splits nat.splits)
qed

lemma scan_lengths_Some:
  assumes "scan_lengths pref n min_area i0 Ls best = Some (i, j, a)"
    and "\<And>bi bj ba. best = Some (bi, bj, ba) \<Longrightarrow> bi = i0 \<and> bj \<le> n \<and> bj - i0 \<in> S \<and> i0 \<le> bj"
    and "set Ls \<subseteq> S"
  shows "i = i0 \<and> j \<le> n \<and> j - i0 \<in> S \<and> i0 \<le> j"
  using assms
proof (induction Ls arbitrary: best)
  case Nil
  then show ?case by simp
next
  case (Cons L Ls)
  show ?case
  proof (cases "i0 + L > n")
    case True
    with Cons.prems show ?thesis by simp
  next
    case False
    let ?a = "area pref i0 (i0 + L)"
    show ?thesis
    proof (cases "?a \<ge> min_area \<and> (case best of None \<Rightarrow> True | Some (bi, bj, ba) \<Rightarrow> ?a > ba)")
      case True
      with False Cons.prems(1)
      have "scan_lengths pref n min_area i0 Ls (Some (i0, i0 + L, ?a)) = Some (i, j, a)"
        by (simp add: Let_def)
      moreover from False Cons.prems(3)
      have "\<And>bi bj ba. Some (i0, i0 + L, ?a) = Some (bi, bj, ba) \<Longrightarrow>
              bi = i0 \<and> bj \<le> n \<and> bj - i0 \<in> S \<and> i0 \<le> bj"
        by auto
      moreover from Cons.prems(3) have "set Ls \<subseteq> S" by simp
      ultimately show ?thesis by (rule Cons.IH)
    next
      case nottaken: False
      with False Cons.prems(1)
      have s: "scan_lengths pref n min_area i0 Ls best = Some (i, j, a)"
        by (simp add: Let_def)
      from Cons.prems(3) have l: "set Ls \<subseteq> S" by simp
      show ?thesis by (rule Cons.IH [OF s Cons.prems(2) l])
    qed
  qed
qed

definition unused_count :: "bool list \<Rightarrow> nat" where
  "unused_count used = length (filter (\<lambda>f. \<not> f) used)"

lemma unused_count_update:
  "i < length used \<Longrightarrow> \<not> used ! i \<Longrightarrow> unused_count (used[i := True]) < unused_count used"
proof (induction used arbitrary: i)
  case Nil
  then show ?case by simp
next
  case (Cons f fs)
  then show ?case by (cases i) (auto simp: unused_count_def)
qed

lemma unused_count_update_le: "unused_count (used[i := True]) \<le> unused_count used"
proof (induction used arbitrary: i)
  case Nil
  then show ?case by simp
next
  case (Cons f fs)
  then show ?case by (cases i) (auto simp: unused_count_def le_SucI)
qed

lemma unused_count_mark:
  assumes "i < length used" "\<not> used ! i" "lo \<le> i" "i < hi"
  shows "unused_count (mark used lo hi) < unused_count used"
proof -
  have le: "unused_count (fold (\<lambda>k u. u[k := True]) ks u) \<le> unused_count u"
    for ks and u :: "bool list"
  proof (induction ks arbitrary: u)
    case Nil
    then show ?case by simp
  next
    case (Cons k ks)
    from Cons.IH [of "u[k := True]"] unused_count_update_le [of u k]
    show ?case by simp
  qed
  have "i \<in> set ks \<Longrightarrow> i < length u \<Longrightarrow> \<not> u ! i \<Longrightarrow>
          unused_count (fold (\<lambda>k u. u[k := True]) ks u) < unused_count u"
    for ks and u :: "bool list"
  proof (induction ks arbitrary: u)
    case Nil
    then show ?case by simp
  next
    case (Cons k ks)
    show ?case
    proof (cases "k = i")
      case True
      from le [of ks "u[k := True]"] unused_count_update [of i u] Cons.prems True
      show ?thesis by simp
    next
      case False
      with Cons.prems have "i \<in> set ks" "i < length (u[k := True])" "\<not> (u[k := True]) ! i"
        by auto
      from Cons.IH [OF this] unused_count_update_le [of u k]
      show ?thesis by simp
    qed
  qed
  from this [of "[lo ..< hi]" used] assms show ?thesis
    by (simp add: mark_def)
qed

text \<open>
  The \<open>while\<close> loop of \<open>select_integral_windows\<close>. \<open>used\<close> has one flag per grid cell, so
  \<open>len(grid)\<close> is \<open>length used\<close>; \<open>i - 12\<close> on naturals is \<open>max(0, i-12)\<close>. Every round
  sets the flag of \<open>i0\<close>, which gives the termination.
\<close>

function select_loop ::
  "real list \<Rightarrow> nat \<Rightarrow> nat \<Rightarrow> real \<Rightarrow> bool list \<Rightarrow> (nat \<times> nat) list \<Rightarrow> (nat \<times> nat) list" where
  "select_loop pref HMIN HMAX min_area used selected =
     (case first_unused used of
        None \<Rightarrow> selected
      | Some i0 \<Rightarrow>
          (case scan_lengths pref (length used) min_area i0 [HMIN ..< HMAX + 1] None of
             None \<Rightarrow> select_loop pref HMIN HMAX min_area (used[i0 := True]) selected
           | Some (i, j, a) \<Rightarrow>
               select_loop pref HMIN HMAX min_area
                 (mark used (i - 12) (min (length used) (j + 12))) (selected @ [(i, j)])))"
  by pat_completeness auto
termination
proof (relation "measure (\<lambda>(pref, HMIN, HMAX, min_area, used, selected). unused_count used)")
  show "wf (measure (\<lambda>(pref, HMIN, HMAX, min_area, used, selected). unused_count used))"
    by simp
next
  fix pref :: "real list" and HMIN HMAX :: nat and min_area :: real and used :: "bool list"
    and selected :: "(nat \<times> nat) list" and i0 :: nat
  assume "first_unused used = Some i0"
  from first_unused_Some [OF this] unused_count_update [of i0 used]
  show "((pref, HMIN, HMAX, min_area, used[i0 := True], selected),
         (pref, HMIN, HMAX, min_area, used, selected))
        \<in> measure (\<lambda>(pref, HMIN, HMAX, min_area, used, selected). unused_count used)"
    by simp
next
  fix pref :: "real list" and HMIN HMAX :: nat and min_area :: real and used :: "bool list"
    and selected :: "(nat \<times> nat) list" and i0 :: nat and x2 :: "nat \<times> nat \<times> real"
    and i :: nat and y :: "nat \<times> real" and j :: nat and a :: real
  assume fu: "first_unused used = Some i0"
    and sc: "scan_lengths pref (length used) min_area i0 [HMIN ..< HMAX + 1] None = Some x2"
    and x2: "(i, y) = x2" "(j, a) = y"
  from sc x2
  have "scan_lengths pref (length used) min_area i0 [HMIN ..< HMAX + 1] None = Some (i, j, a)"
    by simp
  from scan_lengths_Some [OF this, of UNIV] have ij: "i = i0" "i0 \<le> j" by auto
  from first_unused_Some [OF fu] have i0: "i0 < length used" "\<not> used ! i0" by auto
  from unused_count_mark [OF i0, of "i - 12" "min (length used) (j + 12)"] ij i0
  show "((pref, HMIN, HMAX, min_area, mark used (i - 12) (min (length used) (j + 12)),
          selected @ [(i, j)]),
         (pref, HMIN, HMAX, min_area, used, selected))
        \<in> measure (\<lambda>(pref, HMIN, HMAX, min_area, used, selected). unused_count used)"
    by simp
qed

declare select_loop.simps [simp del]

text \<open>
  Python's \<open>xs[k]\<close> for \<open>-len(xs) \<le> k < len(xs)\<close>: a negative index counts from the end.
  The selector reads \<open>grid[j-1]\<close> with \<open>0 \<le> j \<le> len(grid)\<close> on a grid that is not empty.
\<close>

definition py_nth :: "'a list \<Rightarrow> int \<Rightarrow> 'a" where
  "py_nth xs k = (if k < 0 then xs ! nat (int (length xs) + k) else xs ! nat k)"

text \<open>
  \<open>select_integral_windows\<close>; the day counts are naturals, so that \<open>HMIN\<close> and \<open>HMAX\<close> are
  \<open>min_days * 24\<close> and \<open>max_days * 24\<close>.
\<close>

definition select_indices :: "(timestamp \<times> real) list \<Rightarrow> nat \<Rightarrow> nat \<Rightarrow> real \<Rightarrow> (nat \<times> nat) list" where
  "select_indices grid min_days max_days min_area =
     select_loop (pref_sums 0 (map snd grid)) (min_days * 24) (max_days * 24) min_area
       (replicate (length grid) False) []"

definition select_integral_windows ::
  "(timestamp \<times> real) list \<Rightarrow> nat \<Rightarrow> nat \<Rightarrow> real \<Rightarrow> (timestamp \<times> timestamp) list" where
  "select_integral_windows grid min_days max_days min_area =
     map (\<lambda>(i, j). (fst (grid ! i), fst (py_nth grid (int j - 1))))
       (select_indices grid min_days max_days min_area)"

section \<open>Enumeration and protected ids\<close>

text \<open>
  \<open>list_generations\<close> sorts the entries it has read by their timestamps (Python's sort is
  stable); \<open>parsed\<close> is the list of the entries in the order of the listing.
\<close>

definition list_generations :: "(gen_id \<times> timestamp) list \<Rightarrow> (gen_id \<times> timestamp) list" where
  "list_generations parsed = sort_key snd parsed"

text \<open>
  \<open>booted_generations\<close>; \<open>current\<close> is the number read from the link of the running
  system, \<open>None\<close> when there is none.
\<close>

definition booted_generations :: "gen_id option \<Rightarrow> gen_id option \<times> gen_id option" where
  "booted_generations current =
     (current, (case current of None \<Rightarrow> None | Some c \<Rightarrow> Some (max (c - 1) 1)))"

section \<open>Tiered retention planner\<close>

text \<open>The set \<open>keep\<close> and the dictionary \<open>reasons\<close> of \<open>main\<close>.\<close>

type_synonym keeps = "gen_id set \<times> (gen_id \<rightharpoonup> string)"

text \<open>\<open>keep.add(g); reasons[g] = r\<close>, and the same under \<open>if g not in keep\<close>.\<close>

definition keep_add :: "gen_id \<Rightarrow> string \<Rightarrow> keeps \<Rightarrow> keeps" where
  "keep_add g r ks = (insert g (fst ks), (snd ks)(g \<mapsto> r))"

definition keep_new :: "gen_id \<Rightarrow> string \<Rightarrow> keeps \<Rightarrow> keeps" where
  "keep_new g r ks = (if g \<in> fst ks then ks else keep_add g r ks)"

text \<open>
  \<open>if cur: ...\<close> and \<open>if prev: ...\<close> test the truth value of the id: \<open>None\<close> and \<open>0\<close> are
  both false.
\<close>

definition keep_booted :: "gen_id option \<Rightarrow> gen_id option \<Rightarrow> keeps \<Rightarrow> keeps" where
  "keep_booted cur prev ks =
     (let ks1 = (case cur of None \<Rightarrow> ks
                 | Some c \<Rightarrow> if c \<noteq> 0 then keep_add c ''booted-current'' ks else ks)
      in case prev of None \<Rightarrow> ks1
         | Some p \<Rightarrow> if p \<noteq> 0 then keep_add p ''booted-previous'' ks1 else ks1)"

text \<open>Three days are 259200 seconds, ten days 864000, ninety days 7776000.\<close>

definition keep_recent :: "timestamp \<Rightarrow> (gen_id \<times> timestamp) list \<Rightarrow> keeps \<Rightarrow> keeps" where
  "keep_recent now gens ks =
     fold (\<lambda>(gid, ts) ks. if now - ts \<le> 259200 then keep_add gid ''<=3d'' ks else ks) gens ks"

definition in_tier :: "timestamp \<Rightarrow> timestamp \<Rightarrow> bool" where
  "in_tier now ts = (259200 < now - ts \<and> now - ts \<le> 864000)"

text \<open>
  \<open>if k not in d or ts > d[k][1]: d[k] = (gid, ts)\<close>, on a dictionary in insertion order.
\<close>

definition latest_update ::
  "int \<Rightarrow> gen_id \<times> timestamp \<Rightarrow> (int \<times> gen_id \<times> timestamp) list \<Rightarrow> (int \<times> gen_id \<times> timestamp) list" where
  "latest_update k g d =
     (case map_of d k of
        None \<Rightarrow> AList.update k g d
      | Some (gid', ts') \<Rightarrow> if snd g > ts' then AList.update k g d else d)"

text \<open>\<open>ts.date()\<close>: the number of the day identifies the UTC calendar date.\<close>

definition date_key :: "timestamp \<Rightarrow> int" where
  "date_key ts = ts div 86400"

definition daily_loop ::
  "timestamp \<Rightarrow> (gen_id \<times> timestamp) list \<Rightarrow> (int \<times> gen_id \<times> timestamp) list" where
  "daily_loop now gens =
     fold (\<lambda>(gid, ts) daily.
             if in_tier now ts then latest_update (date_key ts) (gid, ts) daily else daily)
       gens []"

definition keep_daily :: "timestamp \<Rightarrow> (gen_id \<times> timestamp) list \<Rightarrow> keeps \<Rightarrow> keeps" where
  "keep_daily now gens ks =
     fold (\<lambda>(gid, ts) ks. keep_new gid ''daily'' ks) (map snd (daily_loop now gens)) ks"

text \<open>
  Productive stretches. The inner \<open>while\<close> loop looks for the first \<open>j > i\<close> with a span of
  at least 36 hours and a mean inter-arrival of at most 12 hours, and breaks there.
\<close>

definition stretch_end :: "(gen_id \<times> timestamp) list \<Rightarrow> nat \<Rightarrow> nat option" where
  "stretch_end sub i =
     find (\<lambda>j. let span = snd (sub ! j) - snd (sub ! i)
                in span \<ge> 129600 \<and>
                   (if j - i > 0 then real_of_int span / real (j - i) else 1000000000) \<le> 12 * 3600)
       [i + 1 ..< length sub]"

text \<open>The generation of \<open>subset[i..j]\<close> closest to \<open>target\<close>, the first one on a tie.\<close>

definition closest ::
  "(gen_id \<times> timestamp) list \<Rightarrow> timestamp \<Rightarrow> nat \<Rightarrow> nat \<Rightarrow> (gen_id \<times> timestamp \<times> int) option" where
  "closest sub target i j =
     fold (\<lambda>k mid.
             let (gidk, tsk) = sub ! k; diff = \<bar>tsk - target\<bar>
             in case mid of
                  None \<Rightarrow> Some (gidk, tsk, diff)
                | Some (mid_gid, mid_ts, mdiff) \<Rightarrow>
                    if diff < mdiff then Some (gidk, tsk, diff) else mid)
       [i ..< j + 1] None"

definition keep_stretch :: "(gen_id \<times> timestamp) list \<Rightarrow> nat \<Rightarrow> nat \<Rightarrow> keeps \<Rightarrow> keeps" where
  "keep_stretch sub i j ks =
     (let first_gid = fst (sub ! i);
          last_gid = fst (sub ! j);
          target = snd (sub ! i) + 24 * 3600;
          ks1 = keep_new first_gid ''prod-first'' ks;
          ks2 = (case closest sub target i j of
                   None \<Rightarrow> ks1
                 | Some (mid_gid, mid_ts, mdiff) \<Rightarrow> keep_new mid_gid ''prod-+24h'' ks1)
      in keep_new last_gid ''prod-last'' ks2)"

lemma stretch_end_gt: "stretch_end sub i = Some j \<Longrightarrow> i < j \<and> j < length sub"
  by (auto simp: stretch_end_def find_Some_iff)

function prod_loop :: "(gen_id \<times> timestamp) list \<Rightarrow> nat \<Rightarrow> keeps \<Rightarrow> keeps" where
  "prod_loop sub i ks =
     (if i < length sub - 1 then
        (case stretch_end sub i of
           Some j \<Rightarrow> prod_loop sub j (keep_stretch sub i j ks)
         | None \<Rightarrow> prod_loop sub (i + 1) ks)
      else ks)"
  by pat_completeness auto
termination
proof (relation "measure (\<lambda>(sub, i, ks). length sub - i)")
  show "wf (measure (\<lambda>(sub, i, ks). length sub - i))"
    by simp
next
  fix sub :: "(gen_id \<times> timestamp) list" and i :: nat and ks :: keeps
  assume "i < length sub - 1"
  then show "((sub, i + 1, ks), (sub, i, ks)) \<in> measure (\<lambda>(sub, i, ks). length sub - i)"
    by simp
next
  fix sub :: "(gen_id \<times> timestamp) list" and i j :: nat and ks :: keeps
  assume "stretch_end sub i = Some j"
  from stretch_end_gt [OF this] have "length sub - j < length sub - i"
    by arith
  then show "((sub, j, keep_stretch sub i j ks), (sub, i, ks))
        \<in> measure (\<lambda>(sub, i, ks). length sub - i)"
    by simp
qed

declare prod_loop.simps [simp del]

definition keep_productive :: "timestamp \<Rightarrow> (gen_id \<times> timestamp) list \<Rightarrow> keeps \<Rightarrow> keeps" where
  "keep_productive now gens ks =
     (let sub = filter (\<lambda>(gid, ts). in_tier now ts) gens
      in if length sub \<ge> 2 then prod_loop sub 0 ks else ks)"

text \<open>
  Long-term clumps: the windows of the grid older than ten days, each keeping the last
  generation whose timestamp lies in it.
\<close>

definition keep_window :: "(gen_id \<times> timestamp) list \<Rightarrow> timestamp \<times> timestamp \<Rightarrow> keeps \<Rightarrow> keeps" where
  "keep_window gens w ks =
     (let cand = filter (\<lambda>(gid, ts). fst w \<le> ts \<and> ts \<le> snd w) gens
      in if cand \<noteq> [] then keep_new (fst (last cand)) ''clump-longterm'' ks else ks)"

definition keep_clumps ::
  "timestamp \<Rightarrow> (gen_id \<times> timestamp) list \<Rightarrow> (timestamp \<times> real) list \<Rightarrow> keeps \<Rightarrow> keeps" where
  "keep_clumps now gens grid ks =
     (let cutoff = now - 864000;
          grid_tail = filter (\<lambda>(t, v). t \<le> cutoff) grid
      in if grid_tail \<noteq> []
         then fold (keep_window gens) (select_integral_windows grid_tail 5 10 0) ks
         else ks)"

text \<open>
  \<open>month_key\<close> is \<open>dt.year * 100 + dt.month\<close>. Year and month of a UTC instant are those of
  the proleptic Gregorian calendar, computed from the number of the day.
\<close>

definition civil_from_days :: "int \<Rightarrow> int \<times> int \<times> int" where
  "civil_from_days z0 =
     (let z = z0 + 719468;
          era = z div 146097;
          doe = z - era * 146097;
          yoe = (doe - doe div 1460 + doe div 36524 - doe div 146096) div 365;
          y = yoe + era * 400;
          doy = doe - (365 * yoe + yoe div 4 - yoe div 100);
          mp = (5 * doy + 2) div 153;
          d = doy - (153 * mp + 2) div 5 + 1;
          m = (if mp < 10 then mp + 3 else mp - 9)
      in (if m \<le> 2 then y + 1 else y, m, d))"

definition month_key :: "timestamp \<Rightarrow> int" where
  "month_key dt = (let (year, month, day) = civil_from_days (dt div 86400) in year * 100 + month)"

definition months_loop ::
  "timestamp \<Rightarrow> (gen_id \<times> timestamp) list \<Rightarrow> (int \<times> gen_id \<times> timestamp) list" where
  "months_loop now gens =
     fold (\<lambda>(gid, ts) months.
             if now - ts > 7776000 then latest_update (month_key ts) (gid, ts) months else months)
       gens []"

definition keep_monthly :: "timestamp \<Rightarrow> (gen_id \<times> timestamp) list \<Rightarrow> keeps \<Rightarrow> keeps" where
  "keep_monthly now gens ks =
     fold (\<lambda>(gid, ts) ks. keep_new gid ''monthly'' ks) (map snd (months_loop now gens)) ks"

text \<open>The tier rules of \<open>main\<close> in their order, from the empty keep-set.\<close>

definition tier_keeps ::
  "(gen_id \<times> timestamp) list \<Rightarrow> gen_id option \<Rightarrow> gen_id option \<Rightarrow> (timestamp \<times> real) list \<Rightarrow> keeps" where
  "tier_keeps gens cur prev grid =
     (let now = snd (last gens);
          ks1 = keep_booted cur prev ({}, Map.empty);
          ks2 = keep_recent now gens ks1;
          ks3 = keep_daily now gens ks2;
          ks4 = keep_productive now gens ks3;
          ks5 = keep_clumps now gens grid ks4
      in keep_monthly now gens ks5)"

section \<open>State store\<close>

text \<open>
  The persisted JSON document. The keys of its dictionaries are the decimal renderings
  \<open>str(gid)\<close> of generation ids and are modelled by the ids themselves; the ISO-8601
  strings are modelled by the instants they render. A top-level key may be missing from a
  document that was not written by this program: reading it with \<open>state[key]\<close> then raises
  \<open>KeyError\<close>, while \<open>state.get("pinned", {})\<close> reads a missing key as empty.
\<close>

record gen_record =
  rec_ts :: timestamp
  rec_score :: real

record state =
  st_gens :: "(gen_id \<rightharpoonup> gen_record) option"
  st_kept :: "(gen_id \<rightharpoonup> string) option"
  st_deleted :: "gen_id list option"
  st_pinned :: "gen_id set option"
  st_meta :: "(string \<rightharpoonup> timestamp) option"

definition empty_state :: state where
  "empty_state =
     \<lparr>st_gens = Some Map.empty, st_kept = Some Map.empty, st_deleted = Some [],
      st_pinned = Some {}, st_meta = Some Map.empty\<rparr>"

text \<open>
  What is at the path of the state file: nothing; a file that cannot be opened; a file
  whose bytes are not text in the encoding of \<open>open\<close>; a text that is not JSON; JSON that is
  not an object (a list, a string, a number, \<open>true\<close>, \<open>false\<close> or \<open>null\<close>); or a JSON
  object, whose values have the types this program writes.
\<close>

datatype file_content = NoFile | Unreadable | Undecodable | Malformed | JsonOther | Json state

text \<open>What \<open>json.load\<close> returns: a document (a \<open>dict\<close>), or a value of another type.\<close>

datatype loaded = Document state | NotAnObject

text \<open>
  \<open>load_state\<close> has no exception handler: \<open>open\<close> raises \<open>OSError\<close> on a file that cannot
  be opened, and \<open>json.load\<close> raises \<open>UnicodeDecodeError\<close> on bytes that are not text and
  \<open>JSONDecodeError\<close> on a text that is not JSON. JSON of any type loads.
\<close>

definition load_state :: "file_content \<Rightarrow> error + loaded" where
  "load_state f =
     (case f of
        NoFile \<Rightarrow> Inr (Document empty_state)
      | Unreadable \<Rightarrow> Inl OSError
      | Undecodable \<Rightarrow> Inl UnicodeDecodeError
      | Malformed \<Rightarrow> Inl JSONDecodeError
      | JsonOther \<Rightarrow> Inr NotAnObject
      | Json st \<Rightarrow> Inr (Document st))"

text \<open>
  The part of the machine a run acts on: the state file, whether its directory can be
  written, the calls of \<open>nix-env --delete-generations\<close> made so far, and the number of
  garbage collections started.
\<close>

record world =
  state_file :: file_content
  writable :: bool
  delete_calls :: "gen_id list list"
  gc_runs :: nat

definition save_state :: "world \<Rightarrow> state \<Rightarrow> error + world" where
  "save_state w data = (if writable w then Inr (w\<lparr>state_file := Json data\<rparr>) else Inl OSError)"

section \<open>The run\<close>

text \<open>
  The command line, and what the collaborators return during one run: the entries of the
  listing that were read as an id and a timestamp, the number in the link of the running
  system, the closure of a generation, the line delta of the repository between two
  instants, the clock, and the exit code of the delete command. The commands are taken to
  start; \<open>main\<close> uses nothing else of them.
\<close>

record args =
  arg_apply :: bool
  arg_dry_run :: bool
  arg_sigma_hours :: int

record env =
  listing :: "(gen_id \<times> timestamp) list"
  current_link :: "gen_id option"
  closure_paths :: "gen_id \<Rightarrow> string set"
  git_lines_delta :: "timestamp \<Rightarrow> timestamp \<Rightarrow> int"
  clock :: timestamp
  delete_returncode :: int

text \<open>
  The loop that records every generation in \<open>state["gens"]\<close> and keeps the pinned ones.
\<close>

fun persist_loop ::
  "(gen_id \<rightharpoonup> real) \<Rightarrow> gen_id set \<Rightarrow> (gen_id \<times> timestamp) list \<Rightarrow>
   (gen_id \<rightharpoonup> gen_record) \<times> keeps \<Rightarrow> (gen_id \<rightharpoonup> gen_record) \<times> keeps" where
  "persist_loop score pinned [] acc = acc"
| "persist_loop score pinned ((gid, ts) # rest) (recs, ks) =
     persist_loop score pinned rest
       (recs(gid \<mapsto> \<lparr>rec_ts = ts, rec_score = dict_get score gid 0\<rparr>),
        if gid \<in> pinned then keep_add gid ''pinned'' ks else ks)"

text \<open>
  \<open>if x in delete_ids: delete_ids.remove(x)\<close> for an id that may be \<open>None\<close>;
  \<open>list.remove\<close> takes the first occurrence out.
\<close>

definition remove_protected :: "gen_id option \<Rightarrow> gen_id list \<Rightarrow> gen_id list" where
  "remove_protected x delete_ids =
     (case x of
        None \<Rightarrow> delete_ids
      | Some c \<Rightarrow> if c \<in> set delete_ids then remove1 c delete_ids else delete_ids)"

record plan =
  pl_gens :: "gen_id \<rightharpoonup> gen_record"
  pl_keep :: "gen_id set"
  pl_reasons :: "gen_id \<rightharpoonup> string"
  pl_delete :: "gen_id list"

text \<open>
  The planning part of \<open>main\<close>, from the tier rules to \<open>plan_delete\<close>; \<open>recs\<close> is
  \<open>state["gens"]\<close> and \<open>pinned\<close> the set of the keys of \<open>state.get("pinned", {})\<close>.
\<close>

definition make_plan ::
  "(gen_id \<times> timestamp) list \<Rightarrow> gen_id option \<Rightarrow> gen_id option \<Rightarrow> (gen_id \<rightharpoonup> real) \<Rightarrow>
   (timestamp \<times> real) list \<Rightarrow> gen_id set \<Rightarrow> (gen_id \<rightharpoonup> gen_record) \<Rightarrow> plan" where
  "make_plan gens cur prev score grid pinned recs =
     (let (recs', keep, reasons) =
            persist_loop score pinned gens (recs, tier_keeps gens cur prev grid);
          all_ids = map fst gens;
          delete_ids = filter (\<lambda>gid. gid \<notin> keep) all_ids;
          delete_ids = remove_protected cur delete_ids;
          delete_ids = remove_protected prev delete_ids
      in \<lparr>pl_gens = recs', pl_keep = keep, pl_reasons = reasons, pl_delete = sort delete_ids\<rparr>)"

text \<open>What a run prints: the plan and the keep map, and whether it showed an error output.\<close>

record report =
  plan_delete :: "gen_id list"
  kept_reasons :: "(gen_id \<times> string) list"

record outcome =
  world_after :: world
  printed :: "report option"
  stderr_shown :: bool
  status :: "error + int"

definition report_of :: "plan \<Rightarrow> report" where
  "report_of p =
     \<lparr>plan_delete = pl_delete p,
      kept_reasons = map (\<lambda>g. (g, dict_get (pl_reasons p) g [])) (sorted_list_of_set (pl_keep p))\<rparr>"

definition kept_of :: "plan \<Rightarrow> (gen_id \<rightharpoonup> string)" where
  "kept_of p = map_of (map (\<lambda>g. (g, dict_get (pl_reasons p) g [])) (sorted_list_of_set (pl_keep p)))"

text \<open>
  The end of \<open>main\<close> after the state was saved and outside the dry-run mode: the deletion,
  the garbage collections, and the deletion history.
\<close>

definition perform_deletion :: "env \<Rightarrow> world \<Rightarrow> report \<Rightarrow> outcome" where
  "perform_deletion e w rep =
     (if plan_delete rep \<noteq> [] then
        let w1 = w\<lparr>delete_calls := delete_calls w @ [plan_delete rep]\<rparr>;
            shown = (delete_returncode e \<noteq> 0);
            w2 = w1\<lparr>gc_runs := gc_runs w1 + 2\<rparr>
        in case load_state (state_file w2) of
             Inl err \<Rightarrow>
               \<lparr>world_after = w2, printed = Some rep, stderr_shown = shown, status = Inl err\<rparr>
           | Inr NotAnObject \<Rightarrow>
               \<lparr>world_after = w2, printed = Some rep, stderr_shown = shown,
                status = Inl TypeError\<rparr>
           | Inr (Document st) \<Rightarrow>
               (case st_deleted st of
                  None \<Rightarrow>
                    \<lparr>world_after = w2, printed = Some rep, stderr_shown = shown,
                     status = Inl KeyError\<rparr>
                | Some deleted \<Rightarrow>
                    (case save_state w2 (st\<lparr>st_deleted := Some (deleted @ plan_delete rep)\<rparr>) of
                       Inl err \<Rightarrow>
                         \<lparr>world_after = w2, printed = Some rep, stderr_shown = shown,
                          status = Inl err\<rparr>
                     | Inr w3 \<Rightarrow>
                         \<lparr>world_after = w3, printed = Some rep, stderr_shown = shown,
                          status = Inr 0\<rparr>))
      else \<lparr>world_after = w, printed = Some rep, stderr_shown = False, status = Inr 0\<rparr>)"

definition raised :: "world \<Rightarrow> report option \<Rightarrow> error \<Rightarrow> outcome" where
  "raised w rep err = \<lparr>world_after = w, printed = rep, stderr_shown = False, status = Inl err\<rparr>"

definition main :: "args \<Rightarrow> env \<Rightarrow> world \<Rightarrow> outcome" where
  "main a e w =
     (let dry_run = (arg_dry_run a \<or> \<not> arg_apply a);
          gens = list_generations (listing e)
      in if gens = [] then
           \<lparr>world_after = w, printed = None, stderr_shown = False, status = Inr 0\<rparr>
         else
           let (cur, prev) = booted_generations (current_link e) in
           case load_state (state_file w) of
             Inl err \<Rightarrow> raised w None err
           | Inr NotAnObject \<Rightarrow>
               let score = scores (closure_paths e) (git_lines_delta e) gens;
                   points = map (\<lambda>(gid, ts). (ts, the (score gid))) gens
               in (case kernel_smooth points (arg_sigma_hours a) of
                     Inl err \<Rightarrow> raised w None err
                   | Inr grid \<Rightarrow> raised w None TypeError)
           | Inr (Document state) \<Rightarrow>
               let score = scores (closure_paths e) (git_lines_delta e) gens;
                   points = map (\<lambda>(gid, ts). (ts, the (score gid))) gens
               in case kernel_smooth points (arg_sigma_hours a) of
                    Inl err \<Rightarrow> raised w None err
                  | Inr grid \<Rightarrow>
                      (case st_gens state of
                         None \<Rightarrow> raised w None KeyError
                       | Some recs \<Rightarrow>
                           let pinned = (case st_pinned state of None \<Rightarrow> {} | Some p \<Rightarrow> p);
                               p = make_plan gens cur prev score grid pinned recs;
                               state1 = state\<lparr>st_gens := Some (pl_gens p),
                                              st_kept := Some (kept_of p)\<rparr>;
                               rep = report_of p
                           in case st_meta state1 of
                                None \<Rightarrow> raised w (Some rep) KeyError
                              | Some meta \<Rightarrow>
                                  (case save_state w
                                          (state1\<lparr>st_meta := Some (meta(''last_run'' \<mapsto> clock e))\<rparr>) of
                                     Inl err \<Rightarrow> raised w (Some rep) err
                                   | Inr w1 \<Rightarrow>
                                       if dry_run then
                                         \<lparr>world_after = w1, printed = Some rep,
                                          stderr_shown = False, status = Inr 0\<rparr>
                                       else perform_deletion e w1 rep)))"

section \<open>Statements of the specification\<close>

text \<open>
  The length the specification gives for the smoother's grid:
  \<open>floor(hoursBetween(first, last)) + 1\<close>, on the timestamps of the first and the last point.
\<close>

definition spec_grid_length :: "timestamp \<Rightarrow> timestamp \<Rightarrow> int" where
  "spec_grid_length first_ts last_ts = (last_ts - first_ts) div 3600 + 1"

text \<open>
  A grid at a resolution of one hour, as the smoother builds it: each entry is one hour
  after the entry before it.
\<close>

definition hourly :: "(timestamp \<times> real) list \<Rightarrow> bool" where
  "hourly grid = (\<forall>k < length grid. fst (grid ! k) = fst (grid ! 0) + 3600 * int k)"

text \<open>
  The length the specification gives for a window \<open>(start, end)\<close>: \<open>end - start\<close> lies
  between \<open>minDays * 24\<close> and \<open>maxDays * 24\<close> hours.
\<close>

definition spec_window_length_ok :: "nat \<Rightarrow> nat \<Rightarrow> timestamp \<times> timestamp \<Rightarrow> bool" where
  "spec_window_length_ok min_days max_days w =
     (int min_days * 24 * 3600 \<le> snd w - fst w \<and> snd w - fst w \<le> int max_days * 24 * 3600)"

text \<open>
  A window with its guard band of 12 hours on both sides; two windows, as closed intervals
  of time, are disjoint when one ends before the other starts. The specification asks the
  expanded windows to be pairwise disjoint.
\<close>

definition expand_guard :: "timestamp \<times> timestamp \<Rightarrow> timestamp \<times> timestamp" where
  "expand_guard w = (fst w - 12 * 3600, snd w + 12 * 3600)"

definition windows_disjoint :: "timestamp \<times> timestamp \<Rightarrow> timestamp \<times> timestamp \<Rightarrow> bool" where
  "windows_disjoint w v = (snd w < fst v \<or> snd v < fst w)"

fun pairwise_disjoint :: "(timestamp \<times> timestamp) list \<Rightarrow> bool" where
  "pairwise_disjoint [] = True"
| "pairwise_disjoint (w # ws) = (list_all (windows_disjoint w) ws \<and> pairwise_disjoint ws)"

definition spec_guard_disjoint :: "(timestamp \<times> timestamp) list \<Rightarrow> bool" where
  "spec_guard_disjoint ws = pairwise_disjoint (map expand_guard ws)"

section \<open>Invariants of the loops\<close>

text \<open>
  The flags \<open>used\<close> are set on a prefix of the grid; the windows selected so far have
  their lengths in range, lie 12 cells apart, and are masked with their guard bands.
\<close>

definition prefix_used :: "nat \<Rightarrow> bool list \<Rightarrow> bool" where
  "prefix_used m used = (m \<le> length used \<and> (\<forall>k < length used. used ! k = (k < m)))"

definition apart :: "nat \<times> nat \<Rightarrow> nat \<times> nat \<Rightarrow> bool" where
  "apart w v = (snd w + 12 \<le> fst v)"

definition good_sel :: "nat \<Rightarrow> nat \<Rightarrow> nat \<Rightarrow> nat \<Rightarrow> (nat \<times> nat) list \<Rightarrow> bool" where
  "good_sel HMIN HMAX n m sel =
     ((\<forall>w \<in> set sel. fst w + HMIN \<le> snd w \<and> snd w \<le> fst w + HMAX \<and> snd w \<le> n \<and>
                      min n (snd w + 12) \<le> m) \<and>
      sorted_wrt apart sel)"

text \<open>
  \<open>extends ks ks'\<close>: the keep-set of \<open>ks'\<close> contains the keep-set of \<open>ks\<close>, and is finite
  when that one is. Every rule of the planner extends the keep-set it is given.
\<close>

definition extends :: "keeps \<Rightarrow> keeps \<Rightarrow> bool" where
  "extends ks ks' = (fst ks \<subseteq> fst ks' \<and> (finite (fst ks) \<longrightarrow> finite (fst ks')))"

section \<open>Views of a run\<close>

text \<open>
  The two results of the loop that records the generations, each as a fold: the keep-set
  with the pinned ids, and the records of \<open>state["gens"]\<close>. \<open>final_keeps\<close> is the keep-set
  with its reasons when the loop ends.
\<close>

definition keep_pinned :: "gen_id set \<Rightarrow> (gen_id \<times> timestamp) list \<Rightarrow> keeps \<Rightarrow> keeps" where
  "keep_pinned pinned gens ks =
     fold (\<lambda>(gid, ts) ks. if gid \<in> pinned then keep_add gid ''pinned'' ks else ks) gens ks"

definition record_gens ::
  "(gen_id \<rightharpoonup> real) \<Rightarrow> (gen_id \<times> timestamp) list \<Rightarrow> (gen_id \<rightharpoonup> gen_record) \<Rightarrow> (gen_id \<rightharpoonup> gen_record)" where
  "record_gens score gens recs =
     fold (\<lambda>(gid, ts) recs. recs(gid \<mapsto> \<lparr>rec_ts = ts, rec_score = dict_get score gid 0\<rparr>)) gens recs"

definition final_keeps ::
  "(gen_id \<times> timestamp) list \<Rightarrow> gen_id option \<Rightarrow> gen_id option \<Rightarrow> (timestamp \<times> real) list \<Rightarrow>
   gen_id set \<Rightarrow> keeps" where
  "final_keeps gens cur prev grid pinned = keep_pinned pinned gens (tier_keeps gens cur prev grid)"

text \<open>
  Names for the parts of \<open>main\<close>: the sorted generations, the scores, the points given to
  the smoother, the pinned ids of the loaded state, the plan, the state that is saved, and
  the mode (\<open>if not args.apply: args.dry_run = True\<close>).
\<close>

definition run_gens :: "env \<Rightarrow> (gen_id \<times> timestamp) list" where
  "run_gens e = list_generations (listing e)"

definition run_scores :: "env \<Rightarrow> (gen_id \<rightharpoonup> real)" where
  "run_scores e = scores (closure_paths e) (git_lines_delta e) (run_gens e)"

definition run_points :: "env \<Rightarrow> (timestamp \<times> real) list" where
  "run_points e = map (\<lambda>(gid, ts). (ts, the (run_scores e gid))) (run_gens e)"

definition pinned_of :: "state \<Rightarrow> gen_id set" where
  "pinned_of st = (case st_pinned st of None \<Rightarrow> {} | Some p \<Rightarrow> p)"

definition run_keeps :: "env \<Rightarrow> (timestamp \<times> real) list \<Rightarrow> gen_id set \<Rightarrow> keeps" where
  "run_keeps e grid pinned =
     final_keeps (run_gens e) (fst (booted_generations (current_link e)))
       (snd (booted_generations (current_link e))) grid pinned"

definition run_plan :: "env \<Rightarrow> (timestamp \<times> real) list \<Rightarrow> gen_id set \<Rightarrow> (gen_id \<rightharpoonup> gen_record) \<Rightarrow> plan" where
  "run_plan e grid pinned recs =
     make_plan (run_gens e) (fst (booted_generations (current_link e)))
       (snd (booted_generations (current_link e))) (run_scores e) grid pinned recs"

definition saved_state :: "env \<Rightarrow> state \<Rightarrow> plan \<Rightarrow> (string \<rightharpoonup> timestamp) \<Rightarrow> state" where
  "saved_state e st p meta =
     st\<lparr>st_gens := Some (pl_gens p), st_kept := Some (kept_of p),
        st_meta := Some (meta(''last_run'' \<mapsto> clock e))\<rparr>"

definition dry_mode :: "args \<Rightarrow> bool" where
  "dry_mode a = (arg_dry_run a \<or> \<not> arg_apply a)"

text \<open>The report, from the final keep-set and its reasons.\<close>

definition keeps_report :: "(gen_id \<times> timestamp) list \<Rightarrow> gen_id option \<Rightarrow> gen_id option \<Rightarrow> keeps \<Rightarrow> report" where
  "keeps_report gens cur prev ks =
     \<lparr>plan_delete = sort (remove_protected prev (remove_protected cur
                         (filter (\<lambda>gid. gid \<notin> fst ks) (map fst gens)))),
      kept_reasons = map (\<lambda>g. (g, dict_get (snd ks) g [])) (sorted_list_of_set (fst ks))\<rparr>"

text \<open>The deletion history persisted at the path of the state file.\<close>

definition deleted_history :: "file_content \<Rightarrow> gen_id list" where
  "deleted_history f =
     (case load_state f of
        Inl err \<Rightarrow> []
      | Inr NotAnObject \<Rightarrow> []
      | Inr (Document st) \<Rightarrow>
          (case st_deleted st of None \<Rightarrow> [] | Some deleted \<Rightarrow> deleted))"

section \<open>Example runs\<close>

text \<open>
  Three generations at 00:00 and 01:00 of one day and at 01:00 four days later; no store
  paths and no commits; a machine with no state file yet.
\<close>

definition three_gens :: "(gen_id \<times> timestamp) list" where
  "three_gens = [(1, 0), (2, 3600), (3, 349200)]"

definition example_env :: "(gen_id \<times> timestamp) list \<Rightarrow> gen_id option \<Rightarrow> timestamp \<Rightarrow> int \<Rightarrow> env" where
  "example_env gens cur now rc =
     \<lparr>listing = gens, current_link = cur, closure_paths = (\<lambda>g. {}),
      git_lines_delta = (\<lambda>older newer. 0), clock = now, delete_returncode = rc\<rparr>"

definition fresh_world :: world where
  "fresh_world = \<lparr>state_file = NoFile, writable = True, delete_calls = [], gc_runs = 0\<rparr>"

definition default_args :: args where
  "default_args = \<lparr>arg_apply = False, arg_dry_run = False, arg_sigma_hours = 12\<rparr>"

definition apply_args :: args where
  "apply_args = \<lparr>arg_apply = True, arg_dry_run = False, arg_sigma_hours = 12\<rparr>"

text \<open>The same three generations with the id 0 for the first.\<close>

definition zero_gens :: "(gen_id \<times> timestamp) list" where
  "zero_gens = [(0, 0), (2, 3600), (3, 349200)]"

section \<open>Activity scores\<close>

lemma pct_range: "0 \<le> pct v x \<and> pct v x \<le> 1"
  by (simp add: pct_def Let_def)

lemma normalize_get_range:
  "0 \<le> dict_get (normalize_vals vals) x 0 \<and> dict_get (normalize_vals vals) x 0 \<le> 1"
  using pct_range [of "sort vals" x] by (simp add: dict_get_def normalize_vals_def)

lemma score_bound:
  fixes a b :: real
  assumes "0 \<le> a \<and> a \<le> 1" and "0 \<le> b \<and> b \<le> 1"
  shows "1 / 10 \<le> 1 / 10 + 1 / 2 * a + 2 / 5 * b \<and> 1 / 10 + 1 / 2 * a + 2 / 5 * b \<le> 1"
proof
  from assms show "1 / 10 \<le> 1 / 10 + 1 / 2 * a + 2 / 5 * b" by simp
  from assms have "1 / 2 * a \<le> 1 / 2" and "2 / 5 * b \<le> 2 / 5" by simp_all
  then show "1 / 10 + 1 / 2 * a + 2 / 5 * b \<le> 1" by simp
qed

lemma score_loop_notin:
  "gid \<notin> fst ` set gens \<Longrightarrow> score_loop nl np ld pd i gens sc gid = sc gid"
  by (induction nl np ld pd i gens sc rule: score_loop.induct) auto

lemma score_loop_range:
  assumes "\<And>x. 0 \<le> dict_get nl x 0 \<and> dict_get nl x 0 \<le> 1"
    and "\<And>x. 0 \<le> dict_get np x 0 \<and> dict_get np x 0 \<le> 1"
    and "0 < i" and "gid \<in> fst ` set gens"
  shows "\<exists>s. score_loop nl np ld pd i gens sc gid = Some s \<and> 1 / 10 \<le> s \<and> s \<le> 1"
  using assms(3,4)
proof (induction gens arbitrary: i sc)
  case Nil
  then show ?case by simp
next
  case (Cons x rest)
  obtain g ts where x: "x = (g, ts)" by (cases x)
  let ?v = "1 / 10 + 1 / 2 * dict_get nl (dict_get ld g 0) 0 + 2 / 5 * dict_get np (dict_get pd g 0) 0"
  have v: "1 / 10 \<le> ?v \<and> ?v \<le> 1"
    by (rule score_bound [OF assms(1) assms(2)])
  show ?case
  proof (cases "gid \<in> fst ` set rest")
    case True
    from Cons.IH [OF _ True, of "Suc i"] Cons.prems show ?thesis by (simp add: x)
  next
    case False
    with Cons.prems have "gid = g" by (auto simp: x)
    with False Cons.prems v score_loop_notin [OF False, of nl np ld pd "Suc i" "sc(g \<mapsto> ?v)"]
    show ?thesis by (simp add: x)
  qed
qed

text \<open>
  Claim C8: for a sequence of generations that is not empty and has distinct ids, the score
  of the first generation is exactly 0.1, and the score of every other generation lies
  between 0.1 and 1.0.
\<close>

theorem scores_first_and_range:
  assumes "gens \<noteq> []" and "distinct (map fst gens)"
  shows "scores cp gd gens (fst (hd gens)) = Some (1 / 10) \<and>
         (\<forall>g \<in> set (tl gens). \<exists>s. scores cp gd gens (fst g) = Some s \<and> 1 / 10 \<le> s \<and> s \<le> 1)"
proof -
  from assms(1) obtain gid ts rest where gens: "gens = (gid, ts) # rest"
    by (cases gens) auto
  obtain ld pd where fl: "feature_loop cp gd gens ([], []) = (ld, pd)"
    by (cases "feature_loop cp gd gens ([], [])")
  let ?nl = "normalize_vals (map snd ld)" and ?np = "normalize_vals (map snd pd)"
  have "scores cp gd gens = score_loop ?nl ?np (map_of ld) (map_of pd) 0 gens Map.empty"
    by (simp add: scores_def fl)
  then have sc: "scores cp gd gens =
      score_loop ?nl ?np (map_of ld) (map_of pd) (Suc 0) rest (Map.empty(gid \<mapsto> 1 / 10))"
    by (simp add: gens)
  from assms(2) gens have notin: "gid \<notin> fst ` set rest" by simp
  have first: "scores cp gd gens (fst (hd gens)) = Some (1 / 10)"
    unfolding sc using score_loop_notin [OF notin] by (simp add: gens)
  have "\<exists>s. scores cp gd gens (fst g) = Some s \<and> 1 / 10 \<le> s \<and> s \<le> 1" if "g \<in> set rest" for g
  proof -
    from that have "fst g \<in> fst ` set rest" by simp
    from score_loop_range [of ?nl ?np "Suc 0" "fst g" rest, OF normalize_get_range normalize_get_range _ this]
    show ?thesis unfolding sc by simp
  qed
  with first show ?thesis by (simp add: gens)
qed

text \<open>\<open>score[gid]\<close> in \<open>main\<close> never raises: every generation has a score.\<close>

lemma score_loop_defined:
  "gid \<in> fst ` set gens \<Longrightarrow> score_loop nl np ld pd i gens sc gid \<noteq> None"
proof (induction gens arbitrary: i sc)
  case Nil
  then show ?case by simp
next
  case (Cons x rest)
  obtain g ts where x: "x = (g, ts)" by (cases x)
  show ?case
  proof (cases "gid \<in> fst ` set rest")
    case True
    from Cons.IH [OF True] show ?thesis by (simp add: x)
  next
    case False
    with Cons.prems have "gid = g" by (auto simp: x)
    with score_loop_notin [OF False] show ?thesis by (simp add: x)
  qed
qed

lemma scores_defined:
  assumes "gid \<in> fst ` set gens"
  shows "scores cp gd gens gid \<noteq> None"
proof -
  obtain ld pd where "feature_loop cp gd gens ([], []) = (ld, pd)"
    by (cases "feature_loop cp gd gens ([], [])")
  with score_loop_defined [OF assms] show ?thesis by (simp add: scores_def)
qed

theorem scores_first_and_range_witness:
  "[(1 :: int, 0 :: int), (2, 3600)] \<noteq> [] \<and> distinct (map fst [(1 :: int, 0 :: int), (2, 3600)]) \<and>
   scores (\<lambda>g. {}) (\<lambda>older newer. 0) [(1, 0), (2, 3600)] 1 = Some (1 / 10) \<and>
   (\<exists>s. scores (\<lambda>g. {}) (\<lambda>older newer. 0) [(1, 0), (2, 3600)] 2 = Some s \<and> 1 / 10 \<le> s \<and> s \<le> 1)"
  using scores_first_and_range [of "[(1, 0), (2, 3600)]" "\<lambda>g. {}" "\<lambda>older newer. 0"]
  by simp

section \<open>The smoother's grid\<close>

lemma floor_hour_eq: "floor_hour t = 3600 * (t div 3600)"
  by (simp add: floor_hour_def minus_mod_eq_mult_div)

lemma floor_hour_mono: "s \<le> t \<Longrightarrow> floor_hour s \<le> floor_hour t"
  by (simp add: floor_hour_eq zdiv_mono1)

lemma density_nonneg:
  assumes "\<forall>p \<in> set points. 0 \<le> snd p"
  shows "0 \<le> density points s2 t"
proof -
  have "0 \<le> acc \<Longrightarrow> \<forall>p \<in> set ps. 0 \<le> snd p \<Longrightarrow>
        0 \<le> fold (\<lambda>(pt, sc) val.
                    let dh = \<bar>real_of_int (pt - t)\<bar> / 3600
                    in val + sc * exp (- (dh * dh) / real_of_int s2)) ps acc"
    for ps :: "(timestamp \<times> real) list" and acc :: real
  proof (induction ps arbitrary: acc)
    case Nil
    then show ?case by simp
  next
    case (Cons p ps)
    obtain pt sc where p: "p = (pt, sc)" by (cases p)
    with Cons.prems have "0 \<le> sc" by simp
    with Cons.prems(1)
    have "0 \<le> acc + sc * exp (- (\<bar>real_of_int (pt - t)\<bar> / 3600 * (\<bar>real_of_int (pt - t)\<bar> / 3600)) / real_of_int s2)"
      by simp
    from Cons.IH [OF this] Cons.prems(2) show ?case by (simp add: p Let_def)
  qed
  from this [of 0 points] assms show ?thesis by (simp add: density_def)
qed

lemma sorted_hd_last: "xs \<noteq> [] \<Longrightarrow> sorted xs \<Longrightarrow> hd xs \<le> (last xs :: int)"
  by (cases xs) (auto)

text \<open>
  Claim C7, as the code has it: for points that are not empty, in chronological order and
  with scores that are not negative, and a bandwidth that is not 0, the grid has one entry
  per hour from the hour of the first point to the hour of the last one, that is
  \<open>hoursBetween(floor_hour(first), floor_hour(last)) + 1\<close> entries, and no density is
  negative.
\<close>

theorem kernel_smooth_grid:
  assumes "points \<noteq> []" and "sorted (map fst points)" and "\<forall>p \<in> set points. 0 \<le> snd p"
    and "sigma_hours \<noteq> 0"
  shows "kernel_smooth [] sigma_hours = Inr [] \<and>
         (\<exists>grid. kernel_smooth points sigma_hours = Inr grid \<and>
            int (length grid) =
              (floor_hour (fst (last points)) - floor_hour (fst (hd points))) div 3600 + 1 \<and>
            (\<forall>p \<in> set grid. 0 \<le> snd p))"
proof -
  have empty: "kernel_smooth [] sigma_hours = Inr []"
    by (simp add: kernel_smooth_def)
  let ?start = "floor_hour (fst (hd points))" and ?end = "floor_hour (fst (last points))"
  from assms(1,2) sorted_hd_last [of "map fst points"]
  have "fst (hd points) \<le> fst (last points)" by (simp add: hd_map last_map)
  then have "?start \<le> ?end" by (rule floor_hour_mono)
  then have hours: "0 < (?end - ?start) div 3600 + 1"
    by (simp add: pos_imp_zdiv_nonneg_iff add_pos_nonneg)
  from assms(4) have s2: "2 * sigma_hours ^ 2 \<noteq> 0" by simp
  let ?grid = "map (\<lambda>i. (?start + 3600 * int i, density points (2 * sigma_hours ^ 2) (?start + 3600 * int i)))
                 [0 ..< nat ((?end - ?start) div 3600 + 1)]"
  from assms(1) hours s2 have "kernel_smooth points sigma_hours = Inr ?grid"
    by (simp add: kernel_smooth_def Let_def)
  moreover from hours have "int (length ?grid) = (?end - ?start) div 3600 + 1" by simp
  moreover from density_nonneg [OF assms(3)] have "\<forall>p \<in> set ?grid. 0 \<le> snd p" by simp
  ultimately show ?thesis using empty by blast
qed

text \<open>
  Two points at 00:50:00 and 01:10:00 are twenty minutes apart, so the length of the
  specification is 1; the grid has the two hours 00:00 and 01:00.
\<close>

theorem kernel_smooth_length_counterexample:
  "map_sum id length (kernel_smooth [(3000, 1 / 10), (4200, 1 / 10)] 12) = Inr 2 \<and>
   spec_grid_length 3000 4200 = 1"
  by (simp add: kernel_smooth_def floor_hour_def spec_grid_length_def Let_def)

theorem kernel_smooth_grid_witness:
  "[(3000, 1 / 10), (4200, 1 / 10 :: real)] \<noteq> [] \<and> sorted (map fst [(3000 :: int, 1 / 10 :: real), (4200, 1 / 10)]) \<and>
   (12 :: int) \<noteq> 0 \<and>
   (\<exists>grid. kernel_smooth [(3000, 1 / 10), (4200, 1 / 10)] 12 = Inr grid \<and>
           int (length grid) = 2 \<and> 0 \<le> snd (hd grid))"
proof -
  have "\<exists>grid. kernel_smooth [(3000, 1 / 10), (4200, 1 / 10)] 12 = Inr grid \<and> int (length grid) = 2 \<and> (\<forall>p \<in> set grid. 0 \<le> snd p)"
    using kernel_smooth_grid [of "[(3000, 1 / 10), (4200, 1 / 10)]" 12]
    by (simp add: floor_hour_def)
  then obtain grid where g: "kernel_smooth [(3000, 1 / 10), (4200, 1 / 10)] 12 = Inr grid" "int (length grid) = 2" "\<forall>p \<in> set grid. 0 \<le> snd p"
    by blast
  from g(2) have "grid \<noteq> []" by auto
  with g(3) have "0 \<le> snd (hd grid)" by simp
  with g(1,2) show ?thesis by simp
qed

section \<open>Loading the state\<close>

text \<open>A run whose state does not load ends with the error of \<open>load_state\<close>.\<close>

lemma main_load_error:
  assumes "list_generations (listing e) \<noteq> []" and "load_state (state_file w) = Inl err"
  shows "main a e w = raised w None err"
  using assms by (simp add: main_def Let_def booted_generations_def)

lemma main_not_an_object:
  assumes "list_generations (listing e) \<noteq> []" and "load_state (state_file w) = Inr NotAnObject"
    and "arg_sigma_hours a \<noteq> 0"
  shows "main a e w = raised w None TypeError"
proof -
  let ?points = "map (\<lambda>(gid, ts).
      (ts, the (scores (closure_paths e) (git_lines_delta e) (list_generations (listing e)) gid)))
      (list_generations (listing e))"
  from assms(3) have "kernel_smooth ?points (arg_sigma_hours a) \<noteq> Inl ZeroDivisionError"
    by (simp add: kernel_smooth_def Let_def)
  moreover have "kernel_smooth ?points (arg_sigma_hours a) = Inl err \<Longrightarrow> err = ZeroDivisionError"
    for err
    by (auto simp: kernel_smooth_def Let_def split: if_splits)
  ultimately obtain grid where "kernel_smooth ?points (arg_sigma_hours a) = Inr grid"
    by (cases "kernel_smooth ?points (arg_sigma_hours a)") auto
  with assms(1,2) show ?thesis
    by (simp add: main_def Let_def booted_generations_def)
qed

text \<open>
  A state file that is not JSON does not load as the empty state: \<open>load_state\<close> raises
  \<open>JSONDecodeError\<close>, and the run ends with it.
\<close>

theorem load_state_corrupt_counterexample:
  "load_state Malformed = Inl JSONDecodeError \<and>
   status (main \<lparr>arg_apply = False, arg_dry_run = True, arg_sigma_hours = 12\<rparr>
             \<lparr>listing = [(1, 0)], current_link = None, closure_paths = (\<lambda>g. {}),
              git_lines_delta = (\<lambda>older newer. 0), clock = 0, delete_returncode = 0\<rparr>
             \<lparr>state_file = Malformed, writable = True, delete_calls = [], gc_runs = 0\<rparr>)
     = Inl JSONDecodeError"
proof -
  have "load_state (state_file \<lparr>state_file = Malformed, writable = True, delete_calls = [],
                                gc_runs = 0\<rparr>) = Inl JSONDecodeError"
    by (simp add: load_state_def)
  from main_load_error [OF _ this,
      of "\<lparr>listing = [(1, 0)], current_link = None, closure_paths = (\<lambda>g. {}),
           git_lines_delta = (\<lambda>older newer. 0), clock = 0, delete_returncode = 0\<rparr>"
         "\<lparr>arg_apply = False, arg_dry_run = True, arg_sigma_hours = 12\<rparr>"]
  show ?thesis by (simp add: load_state_def list_generations_def raised_def)
qed

text \<open>
  Claim C3, as the code has it: a path without a file loads as the empty initial state. A
  file that cannot be opened makes \<open>load_state\<close> raise \<open>OSError\<close>, one whose bytes are not
  text \<open>UnicodeDecodeError\<close>, and one that is not JSON \<open>JSONDecodeError\<close>; a run that has
  generations to plan for ends with that same error, with the machine as it was and
  nothing printed. JSON that is not an object loads without an error; the run (with a
  bandwidth other than 0) then ends with \<open>TypeError\<close> at \<open>state["gens"]\<close>, again with the
  machine as it was and nothing printed.
\<close>

theorem load_state_cases:
  "load_state NoFile = Inr (Document empty_state) \<and>
   load_state Unreadable = Inl OSError \<and>
   load_state Undecodable = Inl UnicodeDecodeError \<and>
   load_state Malformed = Inl JSONDecodeError \<and>
   load_state JsonOther = Inr NotAnObject \<and>
   (list_generations (listing e) \<noteq> [] \<longrightarrow> load_state (state_file w) = Inl err \<longrightarrow>
    main a e w = raised w None err) \<and>
   (list_generations (listing e) \<noteq> [] \<longrightarrow> state_file w = JsonOther \<longrightarrow>
    arg_sigma_hours a \<noteq> 0 \<longrightarrow> main a e w = raised w None TypeError)"
proof -
  have "main a e w = raised w None TypeError"
    if "list_generations (listing e) \<noteq> []" "state_file w = JsonOther" "arg_sigma_hours a \<noteq> 0"
    using main_not_an_object [OF that(1) _ that(3), of w] that(2) by (simp add: load_state_def)
  with main_load_error [of e w err a] show ?thesis
    by (simp add: load_state_def)
qed

theorem load_state_cases_witness:
  "list_generations [(1 :: int, 0 :: int)] \<noteq> [] \<and>
   load_state Undecodable = Inl UnicodeDecodeError \<and> (12 :: int) \<noteq> 0 \<and>
   main \<lparr>arg_apply = False, arg_dry_run = True, arg_sigma_hours = 12\<rparr>
     \<lparr>listing = [(1, 0)], current_link = None, closure_paths = (\<lambda>g. {}),
      git_lines_delta = (\<lambda>older newer. 0), clock = 0, delete_returncode = 0\<rparr>
     \<lparr>state_file = Undecodable, writable = True, delete_calls = [], gc_runs = 0\<rparr>
   = raised \<lparr>state_file = Undecodable, writable = True, delete_calls = [], gc_runs = 0\<rparr> None
       UnicodeDecodeError \<and>
   main \<lparr>arg_apply = False, arg_dry_run = True, arg_sigma_hours = 12\<rparr>
     \<lparr>listing = [(1, 0)], current_link = None, closure_paths = (\<lambda>g. {}),
      git_lines_delta = (\<lambda>older newer. 0), clock = 0, delete_returncode = 0\<rparr>
     \<lparr>state_file = JsonOther, writable = True, delete_calls = [], gc_runs = 0\<rparr>
   = raised \<lparr>state_file = JsonOther, writable = True, delete_calls = [], gc_runs = 0\<rparr> None
       TypeError"
  using load_state_cases
    [of "\<lparr>listing = [(1, 0)], current_link = None, closure_paths = (\<lambda>g. {}),
          git_lines_delta = (\<lambda>older newer. 0), clock = 0, delete_returncode = 0\<rparr>"
        "\<lparr>state_file = Undecodable, writable = True, delete_calls = [], gc_runs = 0\<rparr>"
        UnicodeDecodeError
        "\<lparr>arg_apply = False, arg_dry_run = True, arg_sigma_hours = 12\<rparr>"]
    load_state_cases
    [of "\<lparr>listing = [(1, 0)], current_link = None, closure_paths = (\<lambda>g. {}),
          git_lines_delta = (\<lambda>older newer. 0), clock = 0, delete_returncode = 0\<rparr>"
        "\<lparr>state_file = JsonOther, writable = True, delete_calls = [], gc_runs = 0\<rparr>"
        UnicodeDecodeError
        "\<lparr>arg_apply = False, arg_dry_run = True, arg_sigma_hours = 12\<rparr>"]
  by (simp add: list_generations_def load_state_def)

section \<open>The window selector\<close>

lemma prefix_used_first:
  assumes "prefix_used m used" and "first_unused used = Some i0"
  shows "i0 = m \<and> m < length used"
proof -
  from first_unused_Some [OF assms(2)]
  have a: "i0 < length used" "\<not> used ! i0" "\<forall>k < i0. used ! k" by auto
  from assms(1) a(1,2) have "m \<le> i0" by (auto simp: prefix_used_def)
  moreover have "i0 \<le> m"
  proof (rule ccontr)
    assume "\<not> i0 \<le> m"
    then have "m < i0" by simp
    with a(1,3) have "used ! m" "m < length used" by auto
    with assms(1) show False by (auto simp: prefix_used_def)
  qed
  ultimately show ?thesis using a(1) by simp
qed

lemma prefix_used_update:
  "prefix_used m used \<Longrightarrow> m < length used \<Longrightarrow> prefix_used (Suc m) (used[m := True])"
  by (auto simp: prefix_used_def nth_list_update)

lemma prefix_used_mark:
  assumes "prefix_used m used" and "m < length used" and "m \<le> j"
  shows "prefix_used (min (length used) (j + 12)) (mark used (m - 12) (min (length used) (j + 12)))"
proof -
  have "mark used (m - 12) (min (length used) (j + 12)) ! k = (k < min (length used) (j + 12))"
    if "k < length used" for k
    using nth_mark [OF that, of "m - 12" "min (length used) (j + 12)"] assms that
    by (auto simp: prefix_used_def)
  then show ?thesis by (simp add: prefix_used_def length_mark)
qed

lemma good_sel_mono: "good_sel HMIN HMAX n m sel \<Longrightarrow> m \<le> m' \<Longrightarrow> good_sel HMIN HMAX n m' sel"
  by (fastforce simp: good_sel_def)

lemma good_sel_snoc:
  assumes "good_sel HMIN HMAX n m sel" and "m < n" and "m + HMIN \<le> j" and "j \<le> m + HMAX"
    and "j \<le> n"
  shows "good_sel HMIN HMAX n (min n (j + 12)) (sel @ [(m, j)])"
proof -
  have "apart w (m, j)" if "w \<in> set sel" for w
  proof -
    from assms(1) that have "min n (snd w + 12) \<le> m" by (auto simp: good_sel_def)
    with assms(2) show ?thesis by (simp add: apart_def min_def split: if_splits)
  qed
  moreover have "min n (snd w + 12) \<le> min n (j + 12)" if "w \<in> set sel" for w
  proof -
    from assms(1) that have "min n (snd w + 12) \<le> m" by (auto simp: good_sel_def)
    with assms(2,3,5) show ?thesis by (auto simp: min_def split: if_splits)
  qed
  ultimately show ?thesis using assms
    by (auto simp: good_sel_def sorted_wrt_append)
qed

lemma select_loop_good:
  assumes "prefix_used m used" and "good_sel HMIN HMAX (length used) m sel"
  shows "\<exists>m'. good_sel HMIN HMAX (length used) m' (select_loop pref HMIN HMAX min_area used sel)"
  using assms
proof (induction pref HMIN HMAX min_area used sel arbitrary: m rule: select_loop.induct)
  case (1 pref HMIN HMAX min_area used selected)
  show ?case
  proof (cases "first_unused used")
    case None
    then have "select_loop pref HMIN HMAX min_area used selected = selected"
      by (subst select_loop.simps) simp
    with "1.prems"(2) show ?thesis by auto
  next
    case (Some i0)
    from prefix_used_first [OF "1.prems"(1) Some] have i0: "i0 = m" "m < length used" by auto
    show ?thesis
    proof (cases "scan_lengths pref (length used) min_area i0 [HMIN ..< HMAX + 1] None")
      case None
      with Some have eq: "select_loop pref HMIN HMAX min_area used selected =
          select_loop pref HMIN HMAX min_area (used[i0 := True]) selected"
        by (subst select_loop.simps) simp
      from prefix_used_update [OF "1.prems"(1) i0(2)] i0(1)
      have p: "prefix_used (Suc m) (used[i0 := True])" by simp
      from good_sel_mono [OF "1.prems"(2), of "Suc m"]
      have g: "good_sel HMIN HMAX (length (used[i0 := True])) (Suc m) selected" by simp
      from "1.IH"(1) [OF Some None p g] eq show ?thesis by simp
    next
      case scan: (Some x2)
      obtain i j a where x2: "x2 = (i, j, a)" by (cases x2)
      from scan x2
      have sc: "scan_lengths pref (length used) min_area i0 [HMIN ..< HMAX + 1] None = Some (i, j, a)"
        by simp
      from scan_lengths_Some [OF sc, of "set [HMIN ..< HMAX + 1]"]
      have ij: "i = i0" "j \<le> length used" "HMIN \<le> j - i0" "j - i0 \<le> HMAX" "i0 \<le> j"
        by auto
      let ?used = "mark used (i - 12) (min (length used) (j + 12))"
      from Some sc have eq: "select_loop pref HMIN HMAX min_area used selected =
          select_loop pref HMIN HMAX min_area ?used (selected @ [(i, j)])"
        by (subst select_loop.simps) simp
      from prefix_used_mark [OF "1.prems"(1) i0(2), of j] ij i0
      have p: "prefix_used (min (length used) (j + 12)) ?used" by simp
      from good_sel_snoc [OF "1.prems"(2) i0(2), of j] ij i0
      have g: "good_sel HMIN HMAX (length ?used) (min (length used) (j + 12)) (selected @ [(i, j)])"
        by (simp add: length_mark)
      from "1.IH"(2) [OF Some scan _ _ p g, of "(j, a)"] x2 eq show ?thesis
        by (simp add: length_mark)
    qed
  qed
qed

lemma select_indices_good:
  "\<exists>m. good_sel (min_days * 24) (max_days * 24) (length grid) m
         (select_indices grid min_days max_days min_area)"
proof -
  have "prefix_used 0 (replicate (length grid) False)"
    by (simp add: prefix_used_def)
  moreover have "good_sel (min_days * 24) (max_days * 24) (length (replicate (length grid) False)) 0 []"
    by (simp add: good_sel_def)
  ultimately show ?thesis
    using select_loop_good [of 0 "replicate (length grid) False" "min_days * 24" "max_days * 24" "[]"]
    by (simp add: select_indices_def)
qed

lemma window_times:
  assumes "hourly grid" and "1 \<le> min_days"
    and "good_sel (min_days * 24) (max_days * 24) (length grid) m sel" and "w \<in> set sel"
  shows "fst (grid ! fst w) = fst (grid ! 0) + 3600 * int (fst w) \<and>
         fst (py_nth grid (int (snd w) - 1)) = fst (grid ! 0) + 3600 * (int (snd w) - 1) \<and>
         fst w + min_days * 24 \<le> snd w \<and> snd w \<le> fst w + max_days * 24"
proof -
  from assms(3,4)
  have b: "fst w + min_days * 24 \<le> snd w" "snd w \<le> fst w + max_days * 24" "snd w \<le> length grid"
    by (auto simp: good_sel_def)
  with assms(2) have lt: "fst w < length grid" "snd w - 1 < length grid" "1 \<le> snd w"
    by auto
  from lt(3) have "py_nth grid (int (snd w) - 1) = grid ! (snd w - 1)"
    by (simp add: py_nth_def nat_diff_distrib')
  moreover from assms(1) lt(2) have "fst (grid ! (snd w - 1)) = fst (grid ! 0) + 3600 * int (snd w - 1)"
    by (simp add: hourly_def)
  moreover from lt(3) have "int (snd w - 1) = int (snd w) - 1" by simp
  moreover from assms(1) lt(1) have "fst (grid ! fst w) = fst (grid ! 0) + 3600 * int (fst w)"
    by (simp add: hourly_def)
  ultimately show ?thesis using b by simp
qed

text \<open>
  Claim C4, as the code has it: on an hourly grid and for \<open>minDays\<close> of at least 1, every
  window covers between \<open>minDays * 24\<close> and \<open>maxDays * 24\<close> grid entries and its end is the
  hour of the last entry it covers, so \<open>end - start\<close> lies between \<open>minDays * 24 - 1\<close> and
  \<open>maxDays * 24 - 1\<close> hours.
\<close>

theorem window_lengths:
  assumes "hourly grid" and "1 \<le> min_days"
  shows "\<forall>w \<in> set (select_integral_windows grid min_days max_days min_area).
           (int min_days * 24 - 1) * 3600 \<le> snd w - fst w \<and>
           snd w - fst w \<le> (int max_days * 24 - 1) * 3600"
proof
  fix w
  assume "w \<in> set (select_integral_windows grid min_days max_days min_area)"
  then obtain v where v: "v \<in> set (select_indices grid min_days max_days min_area)"
    and w: "w = (fst (grid ! fst v), fst (py_nth grid (int (snd v) - 1)))"
    by (auto simp: select_integral_windows_def)
  from select_indices_good [of min_days max_days grid min_area] obtain m
    where "good_sel (min_days * 24) (max_days * 24) (length grid) m
             (select_indices grid min_days max_days min_area)" ..
  from window_times [OF assms this v] w
  show "(int min_days * 24 - 1) * 3600 \<le> snd w - fst w \<and>
        snd w - fst w \<le> (int max_days * 24 - 1) * 3600"
    by auto
qed

text \<open>
  Claim C6, as the code has it: on an hourly grid and for \<open>minDays\<close> of at least 1, the
  windows come out in chronological order, each starts no later than it ends, and a later
  window starts at least 13 hours after an earlier one ends. So the windows are pairwise
  disjoint, and a window expanded by its guard band of 12 hours is disjoint from every
  other window.
\<close>

theorem windows_apart:
  assumes "hourly grid" and "1 \<le> min_days"
  shows "\<forall>b < length (select_integral_windows grid min_days max_days min_area). \<forall>a < b.
           (let ws = select_integral_windows grid min_days max_days min_area
            in fst (ws ! a) \<le> snd (ws ! a) \<and> fst (ws ! b) \<le> snd (ws ! b) \<and>
               snd (ws ! a) + 13 * 3600 \<le> fst (ws ! b) \<and>
               windows_disjoint (ws ! a) (ws ! b) \<and>
               windows_disjoint (expand_guard (ws ! a)) (ws ! b) \<and>
               windows_disjoint (ws ! a) (expand_guard (ws ! b)))"
proof (intro allI impI)
  fix b a
  let ?sel = "select_indices grid min_days max_days min_area"
  let ?f = "\<lambda>(i, j). (fst (grid ! i), fst (py_nth grid (int j - 1)))"
  let ?ws = "select_integral_windows grid min_days max_days min_area"
  assume b: "b < length ?ws" and a: "a < b"
  from select_indices_good [of min_days max_days grid min_area] obtain m
    where good: "good_sel (min_days * 24) (max_days * 24) (length grid) m ?sel" ..
  have len: "length ?ws = length ?sel" by (simp add: select_integral_windows_def)
  with a b have ab: "a < length ?sel" "b < length ?sel" by auto
  then have mem: "?sel ! a \<in> set ?sel" "?sel ! b \<in> set ?sel" by auto
  from good have "sorted_wrt apart ?sel" by (simp add: good_sel_def)
  with a ab(2) have ap: "snd (?sel ! a) + 12 \<le> fst (?sel ! b)"
    by (auto simp: sorted_wrt_iff_nth_less apart_def)
  from ab have wa: "?ws ! a = ?f (?sel ! a)" and wb: "?ws ! b = ?f (?sel ! b)"
    by (simp_all add: select_integral_windows_def)
  from window_times [OF assms good mem(1)] window_times [OF assms good mem(2)] ap assms(2)
  have "fst (?ws ! a) \<le> snd (?ws ! a) \<and> fst (?ws ! b) \<le> snd (?ws ! b) \<and>
        snd (?ws ! a) + 13 * 3600 \<le> fst (?ws ! b)"
    unfolding wa wb by (auto simp: case_prod_beta)
  then show "let ws = ?ws
        in fst (ws ! a) \<le> snd (ws ! a) \<and> fst (ws ! b) \<le> snd (ws ! b) \<and>
           snd (ws ! a) + 13 * 3600 \<le> fst (ws ! b) \<and>
           windows_disjoint (ws ! a) (ws ! b) \<and>
           windows_disjoint (expand_guard (ws ! a)) (ws ! b) \<and>
           windows_disjoint (ws ! a) (expand_guard (ws ! b))"
    by (simp add: Let_def windows_disjoint_def expand_guard_def)
qed

text \<open>
  The grid of the smoother is hourly, and so is its part up to a cutoff: the grids that
  \<open>main\<close> gives to the selector are hourly.
\<close>

lemma hourly_upt: "hourly (map (\<lambda>i. (s + 3600 * int i, f i)) [0 ..< n])"
proof -
  have "fst (map (\<lambda>i. (s + 3600 * int i, f i)) [0 ..< n] ! k) =
        fst (map (\<lambda>i. (s + 3600 * int i, f i)) [0 ..< n] ! 0) + 3600 * int k" if "k < n" for k
  proof -
    from that have "0 < n" by simp
    with that show ?thesis by simp
  qed
  then show ?thesis by (simp add: hourly_def)
qed

lemma kernel_smooth_hourly:
  assumes "kernel_smooth points sigma_hours = Inr grid"
  shows "hourly grid"
proof (cases "points = [] \<or> (floor_hour (fst (last points)) - floor_hour (fst (hd points))) div 3600 + 1 \<le> 0")
  case True
  with assms have "grid = []" by (auto simp: kernel_smooth_def Let_def split: if_splits)
  then show ?thesis by (simp add: hourly_def)
next
  case False
  with assms have "grid =
      map (\<lambda>i. (floor_hour (fst (hd points)) + 3600 * int i,
                 density points (2 * sigma_hours ^ 2) (floor_hour (fst (hd points)) + 3600 * int i)))
        [0 ..< nat ((floor_hour (fst (last points)) - floor_hour (fst (hd points))) div 3600 + 1)]"
    by (auto simp: kernel_smooth_def Let_def split: if_splits)
  then show ?thesis by (simp only: hourly_upt)
qed

lemma hourly_take: "hourly grid \<Longrightarrow> hourly (take m grid)"
  by (cases m) (auto simp: hourly_def)

lemma hourly_sorted:
  assumes "hourly grid"
  shows "sorted (map fst grid)"
proof -
  have "fst (grid ! i) \<le> fst (grid ! j)" if "i \<le> j" "j < length grid" for i j
    using assms that by (simp add: hourly_def)
  then show ?thesis by (simp add: sorted_iff_nth_mono)
qed

lemma filter_sorted_prefix:
  fixes xs :: "(timestamp \<times> real) list"
  assumes "sorted (map fst xs)"
  shows "filter (\<lambda>p. fst p \<le> c) xs = takeWhile (\<lambda>p. fst p \<le> c) xs"
  using assms
proof (induction xs)
  case Nil
  then show ?case by simp
next
  case (Cons x xs)
  show ?case
  proof (cases "fst x \<le> c")
    case True
    with Cons show ?thesis by simp
  next
    case False
    with Cons.prems have "\<forall>y \<in> set xs. \<not> fst y \<le> c" by fastforce
    then have "filter (\<lambda>p. fst p \<le> c) xs = []" by (simp add: filter_empty_conv)
    with False show ?thesis by simp
  qed
qed

lemma grid_tail_hourly:
  assumes "kernel_smooth points sigma_hours = Inr grid"
  shows "hourly (filter (\<lambda>(t, v). t \<le> cutoff) grid)"
proof -
  from kernel_smooth_hourly [OF assms] have h: "hourly grid" .
  have "filter (\<lambda>(t, v). t \<le> cutoff) grid = filter (\<lambda>p. fst p \<le> cutoff) grid"
    by (induction grid) auto
  also from filter_sorted_prefix [OF hourly_sorted [OF h]]
  have "\<dots> = takeWhile (\<lambda>p. fst p \<le> cutoff) grid" .
  also have "\<dots> = take (length (takeWhile (\<lambda>p. fst p \<le> cutoff) grid)) grid"
    by (rule takeWhile_eq_take)
  finally show ?thesis using hourly_take [OF h] by simp
qed

lemma hourly_map: "hourly (map (\<lambda>k. (3600 * int k, v)) [0 ..< n])"
  by (simp add: hourly_def)

text \<open>
  A grid of 24 hourly entries with one-day windows: the only window runs from the first
  entry to the last, 23 hours later.
\<close>

theorem window_lengths_counterexample:
  "select_integral_windows (map (\<lambda>k. (3600 * int k, 1)) [0 ..< 24]) 1 1 0 = [(0, 82800)] \<and>
   \<not> spec_window_length_ok 1 1 (0, 82800)"
  by code_simp

text \<open>
  A grid of 60 hourly entries with one-day windows: the first window ends at hour 23 and
  the second starts at hour 36, so their guard bands share the hours 24 to 35.
\<close>

theorem windows_guard_counterexample:
  "select_integral_windows (map (\<lambda>k. (3600 * int k, 1)) [0 ..< 60]) 1 1 0 = [(0, 82800), (129600, 212400)] \<and>
   \<not> spec_guard_disjoint [(0, 82800), (129600, 212400)]"
  by code_simp

theorem window_lengths_witness:
  "hourly (map (\<lambda>k. (3600 * int k, 1)) [0 ..< 24]) \<and> (1 :: nat) \<le> 1 \<and>
   (0, 82800) \<in> set (select_integral_windows (map (\<lambda>k. (3600 * int k, 1)) [0 ..< 24]) 1 1 0) \<and>
   (int 1 * 24 - 1) * 3600 \<le> snd (0 :: int, 82800 :: int) - fst (0 :: int, 82800 :: int) \<and>
   snd (0 :: int, 82800 :: int) - fst (0 :: int, 82800 :: int) \<le> (int 1 * 24 - 1) * 3600"
proof -
  have h: "hourly (map (\<lambda>k. (3600 * int k, 1)) [0 ..< 24])" by (rule hourly_map)
  have m: "(0, 82800) \<in> set (select_integral_windows (map (\<lambda>k. (3600 * int k, 1)) [0 ..< 24]) 1 1 0)"
    by code_simp
  from window_lengths [OF h, of 1 1 0] m
  have "(int 1 * 24 - 1) * 3600 \<le> snd (0 :: int, 82800 :: int) - fst (0 :: int, 82800 :: int) \<and>
        snd (0 :: int, 82800 :: int) - fst (0 :: int, 82800 :: int) \<le> (int 1 * 24 - 1) * 3600"
    by blast
  with h m show ?thesis by simp
qed

theorem windows_apart_witness:
  "hourly (map (\<lambda>k. (3600 * int k, 1)) [0 ..< 60]) \<and> (1 :: nat) \<le> 1 \<and>
   (1 :: nat) < length (select_integral_windows (map (\<lambda>k. (3600 * int k, 1)) [0 ..< 60]) 1 1 0) \<and>
   snd (select_integral_windows (map (\<lambda>k. (3600 * int k, 1)) [0 ..< 60]) 1 1 0 ! 0) + 13 * 3600
     \<le> fst (select_integral_windows (map (\<lambda>k. (3600 * int k, 1)) [0 ..< 60]) 1 1 0 ! 1) \<and>
   windows_disjoint
     (expand_guard (select_integral_windows (map (\<lambda>k. (3600 * int k, 1)) [0 ..< 60]) 1 1 0 ! 0))
     (select_integral_windows (map (\<lambda>k. (3600 * int k, 1)) [0 ..< 60]) 1 1 0 ! 1)"
proof -
  have h: "hourly (map (\<lambda>k. (3600 * int k, 1)) [0 ..< 60])" by (rule hourly_map)
  have l: "(1 :: nat) < length (select_integral_windows (map (\<lambda>k. (3600 * int k, 1)) [0 ..< 60]) 1 1 0)"
    by code_simp
  from windows_apart [OF h, of 1 1 0] l h show ?thesis
    by (simp add: Let_def)
qed

section \<open>The keep-set and the delete list\<close>

lemma extends_refl: "extends ks ks"
  by (simp add: extends_def)

lemma extends_trans [trans]: "extends a b \<Longrightarrow> extends b c \<Longrightarrow> extends a c"
  by (auto simp: extends_def)

lemma extends_keep_add: "extends ks (keep_add g r ks)"
  by (auto simp: extends_def keep_add_def)

lemma extends_keep_new: "extends ks (keep_new g r ks)"
  by (auto simp: extends_def keep_new_def keep_add_def)

lemma extends_fold:
  assumes "\<And>x ks. extends ks (f x ks)"
  shows "extends ks (fold f xs ks)"
proof (induction xs arbitrary: ks)
  case Nil
  show ?case by (simp add: extends_refl)
next
  case (Cons x xs)
  from extends_trans [OF assms [of ks x] Cons.IH [of "f x ks"]] show ?case by simp
qed

lemma extends_keep_booted: "extends ks (keep_booted cur prev ks)"
proof -
  let ?ks1 = "case cur of None \<Rightarrow> ks
              | Some c \<Rightarrow> if c \<noteq> 0 then keep_add c ''booted-current'' ks else ks"
  have 1: "extends ks ?ks1"
    by (simp add: extends_refl extends_keep_add split: option.splits)
  have 2: "extends ?ks1 (case prev of None \<Rightarrow> ?ks1
              | Some p \<Rightarrow> if p \<noteq> 0 then keep_add p ''booted-previous'' ?ks1 else ?ks1)"
    by (simp add: extends_refl extends_keep_add split: option.splits)
  from extends_trans [OF 1 2] show ?thesis by (simp add: keep_booted_def Let_def)
qed

lemma extends_keep_recent: "extends ks (keep_recent now gens ks)"
  unfolding keep_recent_def
  by (rule extends_fold) (auto simp: extends_refl extends_keep_add)

lemma extends_keep_daily: "extends ks (keep_daily now gens ks)"
  unfolding keep_daily_def
  by (rule extends_fold) (auto simp: extends_keep_new)

lemma extends_keep_stretch: "extends ks (keep_stretch sub i j ks)"
proof -
  let ?ks1 = "keep_new (fst (sub ! i)) ''prod-first'' ks"
  let ?ks2 = "case closest sub (snd (sub ! i) + 24 * 3600) i j of
                None \<Rightarrow> ?ks1
              | Some (mid_gid, mid_ts, mdiff) \<Rightarrow> keep_new mid_gid ''prod-+24h'' ?ks1"
  have 1: "extends ks ?ks1" by (rule extends_keep_new)
  have 2: "extends ?ks1 ?ks2"
    by (auto simp: extends_refl extends_keep_new split: option.splits)
  have 3: "extends ?ks2 (keep_new (fst (sub ! j)) ''prod-last'' ?ks2)" by (rule extends_keep_new)
  from extends_trans [OF extends_trans [OF 1 2] 3] show ?thesis
    by (simp add: keep_stretch_def Let_def)
qed

lemma extends_prod_loop: "extends ks (prod_loop sub i ks)"
proof (induction sub i ks rule: prod_loop.induct)
  case (1 sub i ks)
  show ?case
  proof (cases "i < length sub - 1")
    case False
    then show ?thesis by (subst prod_loop.simps) (simp add: extends_refl)
  next
    case True
    show ?thesis
    proof (cases "stretch_end sub i")
      case None
      from "1.IH"(1) [OF True None] True None show ?thesis by (subst prod_loop.simps) simp
    next
      case (Some j)
      from extends_trans [OF extends_keep_stretch "1.IH"(2) [OF True Some]] True Some
      show ?thesis by (subst prod_loop.simps) simp
    qed
  qed
qed

lemma extends_keep_productive: "extends ks (keep_productive now gens ks)"
  by (simp add: keep_productive_def Let_def extends_refl extends_prod_loop)

lemma extends_keep_window: "extends ks (keep_window gens w ks)"
  by (simp add: keep_window_def Let_def extends_refl extends_keep_new)

lemma extends_keep_clumps: "extends ks (keep_clumps now gens grid ks)"
proof -
  have "extends ks (fold (keep_window gens) ws ks)" for ws
    by (rule extends_fold) (rule extends_keep_window)
  then show ?thesis by (simp add: keep_clumps_def Let_def extends_refl)
qed

lemma extends_keep_monthly: "extends ks (keep_monthly now gens ks)"
  unfolding keep_monthly_def
  by (rule extends_fold) (auto simp: extends_keep_new)

lemma extends_tier_keeps:
  "extends (keep_booted cur prev ({}, Map.empty)) (tier_keeps gens cur prev grid)"
proof -
  let ?now = "snd (last gens)"
  let ?ks1 = "keep_booted cur prev ({}, Map.empty)"
  let ?ks2 = "keep_recent ?now gens ?ks1"
  let ?ks3 = "keep_daily ?now gens ?ks2"
  let ?ks4 = "keep_productive ?now gens ?ks3"
  let ?ks5 = "keep_clumps ?now gens grid ?ks4"
  have "extends ?ks1 ?ks2" by (rule extends_keep_recent)
  also have "extends ?ks2 ?ks3" by (rule extends_keep_daily)
  also have "extends ?ks3 ?ks4" by (rule extends_keep_productive)
  also have "extends ?ks4 ?ks5" by (rule extends_keep_clumps)
  also have "extends ?ks5 (keep_monthly ?now gens ?ks5)" by (rule extends_keep_monthly)
  finally show ?thesis by (simp add: tier_keeps_def Let_def)
qed

lemma persist_loop_eq:
  "persist_loop score pinned gens (recs, ks) = (record_gens score gens recs, keep_pinned pinned gens ks)"
  by (induction score pinned gens "(recs, ks)" arbitrary: recs ks rule: persist_loop.induct)
    (simp_all add: record_gens_def keep_pinned_def)

lemma extends_keep_pinned: "extends ks (keep_pinned pinned gens ks)"
  unfolding keep_pinned_def
  by (rule extends_fold) (auto simp: extends_refl extends_keep_add)

lemma make_plan_eq:
  "make_plan gens cur prev score grid pinned recs =
     \<lparr>pl_gens = record_gens score gens recs,
      pl_keep = fst (final_keeps gens cur prev grid pinned),
      pl_reasons = snd (final_keeps gens cur prev grid pinned),
      pl_delete = sort (remove_protected prev (remove_protected cur
         (filter (\<lambda>gid. gid \<notin> fst (final_keeps gens cur prev grid pinned)) (map fst gens))))\<rparr>"
  by (simp add: make_plan_def persist_loop_eq final_keeps_def Let_def case_prod_beta)

lemma extends_final_keeps:
  "extends (keep_booted cur prev ({}, Map.empty)) (final_keeps gens cur prev grid pinned)"
  unfolding final_keeps_def
  by (rule extends_trans [OF extends_tier_keeps extends_keep_pinned])

lemma finite_final_keeps: "finite (fst (final_keeps gens cur prev grid pinned))"
proof -
  have "finite (fst (keep_booted cur prev ({}, Map.empty)))"
    by (simp add: keep_booted_def keep_add_def Let_def split: option.splits)
  with extends_final_keeps [of cur prev gens grid pinned] show ?thesis
    by (simp add: extends_def)
qed

lemma booted_in_final_keeps:
  shows "cur = Some c \<Longrightarrow> c \<noteq> 0 \<Longrightarrow> c \<in> fst (final_keeps gens cur prev grid pinned)"
    and "prev = Some p \<Longrightarrow> p \<noteq> 0 \<Longrightarrow> p \<in> fst (final_keeps gens cur prev grid pinned)"
proof -
  have sub: "fst (keep_booted cur prev ({}, Map.empty)) \<subseteq> fst (final_keeps gens cur prev grid pinned)"
    using extends_final_keeps [of cur prev gens grid pinned] by (simp add: extends_def)
  show "cur = Some c \<Longrightarrow> c \<noteq> 0 \<Longrightarrow> c \<in> fst (final_keeps gens cur prev grid pinned)"
    using sub by (auto simp: keep_booted_def keep_add_def Let_def split: option.splits)
  show "prev = Some p \<Longrightarrow> p \<noteq> 0 \<Longrightarrow> p \<in> fst (final_keeps gens cur prev grid pinned)"
    using sub by (auto simp: keep_booted_def keep_add_def Let_def split: option.splits)
qed

lemma remove_protected_subset: "set (remove_protected x ds) \<subseteq> set ds"
proof (cases x)
  case None
  then show ?thesis by (simp add: remove_protected_def)
next
  case (Some c)
  with set_remove1_subset [of c ds] show ?thesis by (simp add: remove_protected_def)
qed

lemma remove_protected_distinct: "distinct ds \<Longrightarrow> distinct (remove_protected x ds)"
  by (simp add: remove_protected_def split: option.splits)

lemma remove_protected_gone: "distinct ds \<Longrightarrow> c \<notin> set (remove_protected (Some c) ds)"
  by (simp add: remove_protected_def)

lemma protected_not_deleted:
  assumes "distinct (map fst gens)" and "cur = Some c \<or> prev = Some c"
  shows "c \<notin> set (pl_delete (make_plan gens cur prev score grid pinned recs))"
proof -
  let ?d0 = "filter (\<lambda>gid. gid \<notin> fst (final_keeps gens cur prev grid pinned)) (map fst gens)"
  from assms(1) have d0: "distinct ?d0" by simp
  from assms(2) have "c \<notin> set (remove_protected prev (remove_protected cur ?d0))"
  proof
    assume "cur = Some c"
    with remove_protected_gone [OF d0, of c] remove_protected_subset [of prev "remove_protected cur ?d0"]
    show ?thesis by auto
  next
    assume "prev = Some c"
    with remove_protected_gone [OF remove_protected_distinct [OF d0, of cur], of c]
    show ?thesis by simp
  qed
  then show ?thesis by (simp add: make_plan_eq)
qed

lemma protected_not_deleted_nonzero:
  assumes "cur = Some c \<or> prev = Some c" and "c \<noteq> 0"
  shows "c \<notin> set (pl_delete (make_plan gens cur prev score grid pinned recs))"
proof -
  from assms booted_in_final_keeps [of cur c gens prev grid pinned]
    booted_in_final_keeps(2) [of prev c gens cur grid pinned]
  have "c \<in> fst (final_keeps gens cur prev grid pinned)" by auto
  then have "c \<notin> set (filter (\<lambda>gid. gid \<notin> fst (final_keeps gens cur prev grid pinned)) (map fst gens))"
    by simp
  with remove_protected_subset [of cur]
  have "c \<notin> set (remove_protected cur
          (filter (\<lambda>gid. gid \<notin> fst (final_keeps gens cur prev grid pinned)) (map fst gens)))"
    by blast
  with remove_protected_subset [of prev]
  have "c \<notin> set (remove_protected prev (remove_protected cur
          (filter (\<lambda>gid. gid \<notin> fst (final_keeps gens cur prev grid pinned)) (map fst gens))))"
    by blast
  then show ?thesis by (simp add: make_plan_eq)
qed

lemma distinct_list_generations:
  "distinct (map fst (list_generations parsed)) = distinct (map fst parsed)"
proof -
  have "mset (map fst (list_generations parsed)) = mset (map fst parsed)"
    by (simp add: list_generations_def)
  then show ?thesis by (rule mset_eq_imp_distinct_iff)
qed

section \<open>Outcomes of a run\<close>

lemma main_unfold:
  "main a e w =
     (if run_gens e = [] then
        \<lparr>world_after = w, printed = None, stderr_shown = False, status = Inr 0\<rparr>
      else
        case load_state (state_file w) of
          Inl err \<Rightarrow> raised w None err
        | Inr NotAnObject \<Rightarrow>
            (case kernel_smooth (run_points e) (arg_sigma_hours a) of
               Inl err \<Rightarrow> raised w None err
             | Inr grid \<Rightarrow> raised w None TypeError)
        | Inr (Document st) \<Rightarrow>
            (case kernel_smooth (run_points e) (arg_sigma_hours a) of
               Inl err \<Rightarrow> raised w None err
             | Inr grid \<Rightarrow>
                 (case st_gens st of
                    None \<Rightarrow> raised w None KeyError
                  | Some recs \<Rightarrow>
                      (case st_meta st of
                         None \<Rightarrow>
                           raised w (Some (report_of (run_plan e grid (pinned_of st) recs))) KeyError
                       | Some meta \<Rightarrow>
                           (case save_state w
                                   (saved_state e st (run_plan e grid (pinned_of st) recs) meta) of
                              Inl err \<Rightarrow>
                                raised w (Some (report_of (run_plan e grid (pinned_of st) recs))) err
                            | Inr w1 \<Rightarrow>
                                if dry_mode a then
                                  \<lparr>world_after = w1,
                                   printed = Some (report_of (run_plan e grid (pinned_of st) recs)),
                                   stderr_shown = False, status = Inr 0\<rparr>
                                else perform_deletion e w1
                                       (report_of (run_plan e grid (pinned_of st) recs)))))))"
  by (simp add: main_def Let_def run_gens_def run_points_def run_scores_def pinned_of_def
      run_plan_def saved_state_def dry_mode_def case_prod_beta
      split: sum.splits option.splits loaded.splits)

lemma kernel_smooth_Inr:
  assumes "sigma_hours \<noteq> 0"
  shows "\<exists>grid. kernel_smooth points sigma_hours = Inr grid \<and>
           (\<forall>p \<in> set grid. floor_hour (fst (hd points)) \<le> fst p)"
  using assms by (auto simp: kernel_smooth_def Let_def)

lemma kernel_smooth_times:
  assumes "kernel_smooth points sigma_hours = Inr grid" and "p \<in> set grid"
  shows "floor_hour (fst (hd points)) \<le> fst p"
  using assms by (auto simp: kernel_smooth_def Let_def split: if_splits)

lemma run_points_hd: "run_gens e \<noteq> [] \<Longrightarrow> fst (hd (run_points e)) = snd (hd (run_gens e))"
  by (cases "run_gens e") (auto simp: run_points_def)

lemma printed_raised [simp]: "printed (raised w rep err) = rep"
  and status_raised [simp]: "status (raised w rep err) = Inl err"
  and world_raised [simp]: "world_after (raised w rep err) = w"
  and stderr_raised [simp]: "stderr_shown (raised w rep err) = False"
  by (simp_all add: raised_def)

lemma printed_perform_deletion [simp]: "printed (perform_deletion e w rep) = Some rep"
  by (simp add: perform_deletion_def Let_def split: sum.splits option.splits loaded.splits)

lemma perform_deletion_saved:
  assumes "writable w" and "state_file w = Json S"
  shows "perform_deletion e w rep =
     (if plan_delete rep = [] then
        \<lparr>world_after = w, printed = Some rep, stderr_shown = False, status = Inr 0\<rparr>
      else
        case st_deleted S of
          None \<Rightarrow>
            \<lparr>world_after = w\<lparr>delete_calls := delete_calls w @ [plan_delete rep],
                               gc_runs := gc_runs w + 2\<rparr>,
             printed = Some rep, stderr_shown = (delete_returncode e \<noteq> 0),
             status = Inl KeyError\<rparr>
        | Some deleted \<Rightarrow>
            \<lparr>world_after = w\<lparr>delete_calls := delete_calls w @ [plan_delete rep],
                               gc_runs := gc_runs w + 2,
                               state_file := Json (S\<lparr>st_deleted := Some (deleted @ plan_delete rep)\<rparr>)\<rparr>,
             printed = Some rep, stderr_shown = (delete_returncode e \<noteq> 0),
             status = Inr 0\<rparr>)"
  using assms
  by (simp add: perform_deletion_def Let_def load_state_def save_state_def split: option.splits)

lemma main_printed:
  assumes "printed (main a e w) = Some rep"
  shows "\<exists>st grid recs. run_gens e \<noteq> [] \<and> load_state (state_file w) = Inr (Document st) \<and>
           kernel_smooth (run_points e) (arg_sigma_hours a) = Inr grid \<and>
           st_gens st = Some recs \<and> rep = report_of (run_plan e grid (pinned_of st) recs)"
  using assms
  by (auto simp: main_unfold split: if_splits sum.splits option.splits loaded.splits)

lemma main_run:
  assumes "run_gens e \<noteq> []" and "load_state (state_file w) = Inr (Document st)"
    and "kernel_smooth (run_points e) (arg_sigma_hours a) = Inr grid"
    and "st_gens st = Some recs" and "st_meta st = Some meta" and "writable w"
  shows "main a e w =
     (if dry_mode a then
        \<lparr>world_after = w\<lparr>state_file := Json (saved_state e st (run_plan e grid (pinned_of st) recs) meta)\<rparr>,
         printed = Some (report_of (run_plan e grid (pinned_of st) recs)),
         stderr_shown = False, status = Inr 0\<rparr>
      else perform_deletion e
             (w\<lparr>state_file := Json (saved_state e st (run_plan e grid (pinned_of st) recs) meta)\<rparr>)
             (report_of (run_plan e grid (pinned_of st) recs)))"
  using assms by (simp add: main_unfold save_state_def)

lemma main_ok:
  assumes "status (main a e w) = Inr 0" and "printed (main a e w) = Some rep"
  shows "\<exists>st grid recs meta. run_gens e \<noteq> [] \<and> load_state (state_file w) = Inr (Document st) \<and>
           kernel_smooth (run_points e) (arg_sigma_hours a) = Inr grid \<and>
           st_gens st = Some recs \<and> st_meta st = Some meta \<and> writable w \<and>
           rep = report_of (run_plan e grid (pinned_of st) recs)"
  using assms
  by (auto simp: main_unfold save_state_def split: if_splits sum.splits option.splits loaded.splits)

lemma report_of_make_plan:
  "report_of (make_plan gens cur prev score grid pinned recs) =
     keeps_report gens cur prev (final_keeps gens cur prev grid pinned)"
  by (simp add: report_of_def make_plan_eq keeps_report_def)

lemma report_of_run_plan:
  "report_of (run_plan e grid pinned recs) =
     keeps_report (run_gens e) (fst (booted_generations (current_link e)))
       (snd (booted_generations (current_link e))) (run_keeps e grid pinned)"
  by (simp add: run_plan_def run_keeps_def report_of_make_plan)

lemma kept_of_eq: "kept_of p = map_of (kept_reasons (report_of p))"
  by (simp add: kept_of_def report_of_def)

lemma kept_reasons_keys:
  "fst ` set (kept_reasons (keeps_report gens cur prev (final_keeps gens cur prev grid pinned))) =
     fst (final_keeps gens cur prev grid pinned)"
  using finite_final_keeps [of gens cur prev grid pinned]
  by (simp add: keeps_report_def image_image)

lemma deleted_history_Json [simp]:
  "deleted_history (Json st) = (case st_deleted st of None \<Rightarrow> [] | Some deleted \<Rightarrow> deleted)"
  by (simp add: deleted_history_def load_state_def)

lemma deleted_history_loaded:
  "load_state f = Inr (Document st) \<Longrightarrow>
   deleted_history f = (case st_deleted st of None \<Rightarrow> [] | Some deleted \<Rightarrow> deleted)"
  by (simp add: deleted_history_def)

lemma saved_state_fields [simp]:
  "st_deleted (saved_state e st p meta) = st_deleted st"
  "st_pinned (saved_state e st p meta) = st_pinned st"
  "st_gens (saved_state e st p meta) = Some (pl_gens p)"
  "st_kept (saved_state e st p meta) = Some (kept_of p)"
  "st_meta (saved_state e st p meta) = Some (meta(''last_run'' \<mapsto> clock e))"
  by (simp_all add: saved_state_def)

text \<open>The history after a run that ended normally outside the dry-run mode.\<close>

lemma apply_history:
  assumes "\<not> dry_mode a" and "status (main a e w) = Inr 0" and "printed (main a e w) = Some rep"
  shows "deleted_history (state_file (world_after (main a e w))) =
           deleted_history (state_file w) @ plan_delete rep \<and>
         stderr_shown (main a e w) = (plan_delete rep \<noteq> [] \<and> delete_returncode e \<noteq> 0) \<and>
         delete_calls (world_after (main a e w)) =
           delete_calls w @ (if plan_delete rep = [] then [] else [plan_delete rep])"
proof -
  from main_ok [OF assms(2,3)] obtain st grid recs meta where
    h: "run_gens e \<noteq> []" "load_state (state_file w) = Inr (Document st)"
      "kernel_smooth (run_points e) (arg_sigma_hours a) = Inr grid"
      "st_gens st = Some recs" "st_meta st = Some meta" "writable w"
      "rep = report_of (run_plan e grid (pinned_of st) recs)"
    by blast
  let ?S = "saved_state e st (run_plan e grid (pinned_of st) recs) meta"
  let ?w1 = "w\<lparr>state_file := Json ?S\<rparr>"
  from main_run [OF h(1-6)] assms(1) h(7)
  have m: "main a e w = perform_deletion e ?w1 rep" by simp
  from h(6) have pd: "perform_deletion e ?w1 rep =
     (if plan_delete rep = [] then
        \<lparr>world_after = ?w1, printed = Some rep, stderr_shown = False, status = Inr 0\<rparr>
      else
        case st_deleted ?S of
          None \<Rightarrow>
            \<lparr>world_after = ?w1\<lparr>delete_calls := delete_calls ?w1 @ [plan_delete rep],
                               gc_runs := gc_runs ?w1 + 2\<rparr>,
             printed = Some rep, stderr_shown = (delete_returncode e \<noteq> 0),
             status = Inl KeyError\<rparr>
        | Some deleted \<Rightarrow>
            \<lparr>world_after = ?w1\<lparr>delete_calls := delete_calls ?w1 @ [plan_delete rep],
                               gc_runs := gc_runs ?w1 + 2,
                               state_file := Json (?S\<lparr>st_deleted := Some (deleted @ plan_delete rep)\<rparr>)\<rparr>,
             printed = Some rep, stderr_shown = (delete_returncode e \<noteq> 0),
             status = Inr 0\<rparr>)"
    by (intro perform_deletion_saved) simp_all
  show ?thesis
  proof (cases "plan_delete rep = []")
    case True
    with m pd deleted_history_loaded [OF h(2)] show ?thesis by simp
  next
    case False
    with assms(2) m pd obtain deleted where d: "st_deleted st = Some deleted"
      by (cases "st_deleted st") auto
    with False m pd deleted_history_loaded [OF h(2)] show ?thesis by simp
  qed
qed

text \<open>What a run in the dry-run mode leaves alone, however it ends.\<close>

lemma dry_frame:
  assumes "dry_mode a"
  shows "delete_calls (world_after (main a e w)) = delete_calls w \<and>
         gc_runs (world_after (main a e w)) = gc_runs w \<and>
         deleted_history (state_file (world_after (main a e w))) = deleted_history (state_file w)"
  using assms
  by (auto simp: main_unfold save_state_def deleted_history_loaded
      split: if_splits sum.splits option.splits loaded.splits)

lemma record_gens_notin:
  "gid \<notin> fst ` set gens \<Longrightarrow> record_gens score gens recs gid = recs gid"
  unfolding record_gens_def
  by (induction gens arbitrary: recs) auto

lemma record_gens_distinct:
  assumes "distinct (map fst gens)" and "(gid, ts) \<in> set gens"
  shows "record_gens score gens recs gid = Some \<lparr>rec_ts = ts, rec_score = dict_get score gid 0\<rparr>"
  using assms
proof (induction gens arbitrary: recs)
  case Nil
  then show ?case by simp
next
  case (Cons g gens)
  obtain g0 t0 where g: "g = (g0, t0)" by (cases g)
  have unfold: "record_gens score ((g0, t0) # gens) recs =
      record_gens score gens (recs(g0 \<mapsto> \<lparr>rec_ts = t0, rec_score = dict_get score g0 0\<rparr>))"
    by (simp add: record_gens_def)
  show ?case
  proof (cases "(gid, ts) = g")
    case True
    with Cons.prems(1) g have "gid \<notin> fst ` set gens" by auto
    from record_gens_notin [OF this] True g show ?thesis by (auto simp: unfold)
  next
    case False
    with Cons.prems have "distinct (map fst gens)" "(gid, ts) \<in> set gens" by auto
    from Cons.IH [OF this] show ?thesis by (simp add: g unfold)
  qed
qed

lemma run_plan_gens: "pl_gens (run_plan e grid pinned recs) = record_gens (run_scores e) (run_gens e) recs"
  by (simp add: run_plan_def make_plan_eq)

lemma dry_success:
  assumes "dry_mode a" and "run_gens e \<noteq> []" and "load_state (state_file w) = Inr (Document st)"
    and "st_gens st = Some recs" and "st_meta st = Some meta" and "writable w"
    and "arg_sigma_hours a \<noteq> 0"
  shows "\<exists>grid. kernel_smooth (run_points e) (arg_sigma_hours a) = Inr grid \<and>
           main a e w =
             \<lparr>world_after = w\<lparr>state_file := Json (saved_state e st (run_plan e grid (pinned_of st) recs) meta)\<rparr>,
              printed = Some (report_of (run_plan e grid (pinned_of st) recs)),
              stderr_shown = False, status = Inr 0\<rparr>"
proof -
  from kernel_smooth_Inr [OF assms(7), of "run_points e"] obtain grid
    where g: "kernel_smooth (run_points e) (arg_sigma_hours a) = Inr grid" by blast
  from main_run [OF assms(2,3) g assms(4,5,6)] assms(1) g show ?thesis by simp
qed

lemma keep_clumps_no_tail:
  assumes "\<forall>p \<in> set grid. now - 864000 < fst p"
  shows "keep_clumps now gens grid ks = ks"
proof -
  from assms have "filter (\<lambda>(t, v). t \<le> now - 864000) grid = []"
    by (auto simp: filter_empty_conv)
  then show ?thesis by (simp add: keep_clumps_def Let_def)
qed

lemma final_keeps_no_tail:
  assumes "\<forall>p \<in> set grid. snd (last gens) - 864000 < fst p"
  shows "final_keeps gens cur prev grid pinned = final_keeps gens cur prev [] pinned"
  using keep_clumps_no_tail [OF assms] keep_clumps_no_tail [of "[]" "snd (last gens)"]
  by (simp add: final_keeps_def tier_keeps_def Let_def)

lemma printed_recent:
  assumes "run_gens e \<noteq> []" and "load_state (state_file w) = Inr (Document st)" and "st_gens st = Some recs"
    and "arg_sigma_hours a \<noteq> 0"
    and "snd (last (run_gens e)) - 864000 < floor_hour (snd (hd (run_gens e)))"
  shows "printed (main a e w) =
           Some (keeps_report (run_gens e) (fst (booted_generations (current_link e)))
                   (snd (booted_generations (current_link e)))
                   (final_keeps (run_gens e) (fst (booted_generations (current_link e)))
                      (snd (booted_generations (current_link e))) [] (pinned_of st)))"
proof -
  from kernel_smooth_Inr [OF assms(4), of "run_points e"] obtain grid
    where g: "kernel_smooth (run_points e) (arg_sigma_hours a) = Inr grid"
      "\<forall>p \<in> set grid. floor_hour (fst (hd (run_points e))) \<le> fst p"
    by blast
  from g(2) assms(5) run_points_hd [OF assms(1)]
  have "\<forall>p \<in> set grid. snd (last (run_gens e)) - 864000 < fst p" by fastforce
  from final_keeps_no_tail [OF this]
  have "report_of (run_plan e grid (pinned_of st) recs) =
          keeps_report (run_gens e) (fst (booted_generations (current_link e)))
            (snd (booted_generations (current_link e)))
            (final_keeps (run_gens e) (fst (booted_generations (current_link e)))
               (snd (booted_generations (current_link e))) [] (pinned_of st))"
    by (simp add: report_of_run_plan run_keeps_def)
  with assms(1,2,3) g(1) show ?thesis
    by (simp add: main_unfold save_state_def split: option.splits)
qed

lemma apply_success:
  assumes "\<not> dry_mode a" and "run_gens e \<noteq> []" and "load_state (state_file w) = Inr (Document st)"
    and "st_gens st = Some recs" and "st_meta st = Some meta" and "st_deleted st = Some deleted"
    and "writable w" and "arg_sigma_hours a \<noteq> 0"
  shows "status (main a e w) = Inr 0"
proof -
  from kernel_smooth_Inr [OF assms(8), of "run_points e"] obtain grid
    where g: "kernel_smooth (run_points e) (arg_sigma_hours a) = Inr grid" by blast
  let ?S = "saved_state e st (run_plan e grid (pinned_of st) recs) meta"
  let ?rep = "report_of (run_plan e grid (pinned_of st) recs)"
  from main_run [OF assms(2,3) g assms(4,5,7)] assms(1)
  have "main a e w = perform_deletion e (w\<lparr>state_file := Json ?S\<rparr>) ?rep" by simp
  moreover from assms(7) have "writable (w\<lparr>state_file := Json ?S\<rparr>)" by simp
  moreover have "state_file (w\<lparr>state_file := Json ?S\<rparr>) = Json ?S" by simp
  ultimately show ?thesis using assms(6)
    by (simp add: perform_deletion_saved)
qed

lemma example_fields [simp]:
  "listing (example_env gens cur now rc) = gens"
  "current_link (example_env gens cur now rc) = cur"
  "clock (example_env gens cur now rc) = now"
  "delete_returncode (example_env gens cur now rc) = rc"
  "closure_paths (example_env gens cur now rc) = (\<lambda>g. {})"
  "git_lines_delta (example_env gens cur now rc) = (\<lambda>older newer. 0)"
  by (simp_all add: example_env_def)

lemma example_args [simp]:
  "dry_mode default_args" "\<not> dry_mode apply_args"
  "arg_sigma_hours default_args = 12" "arg_sigma_hours apply_args = 12"
  by (simp_all add: dry_mode_def default_args_def apply_args_def)

lemma fresh_world_fields [simp]:
  "state_file fresh_world = NoFile" "writable fresh_world" "delete_calls fresh_world = []"
  "gc_runs fresh_world = 0"
  by (simp_all add: fresh_world_def)

lemma load_fresh [simp]: "load_state NoFile = Inr (Document empty_state)"
  by (simp add: load_state_def)

lemma empty_state_fields [simp]:
  "st_gens empty_state = Some Map.empty" "st_meta empty_state = Some Map.empty"
  "st_deleted empty_state = Some []" "st_pinned empty_state = Some {}"
  "pinned_of empty_state = {}"
  by (simp_all add: empty_state_def pinned_of_def)

lemma printed_example:
  assumes "sort_key snd gens = gens" and "gens \<noteq> []"
    and "snd (last gens) - 864000 < floor_hour (snd (hd gens))" and "arg_sigma_hours a \<noteq> 0"
  shows "printed (main a (example_env gens cur now rc) fresh_world) =
           Some (keeps_report gens (fst (booted_generations cur)) (snd (booted_generations cur))
                   (final_keeps gens (fst (booted_generations cur)) (snd (booted_generations cur)) [] {}))"
proof -
  from assms(1) have g: "run_gens (example_env gens cur now rc) = gens"
    by (simp add: run_gens_def list_generations_def)
  from printed_recent [of "example_env gens cur now rc" fresh_world empty_state Map.empty a] g assms
  show ?thesis by simp
qed

lemma status_example:
  assumes "sort_key snd gens = gens" and "gens \<noteq> []" and "arg_sigma_hours a \<noteq> 0"
  shows "status (main a (example_env gens cur now rc) fresh_world) = Inr 0"
proof -
  from assms(1) have g: "run_gens (example_env gens cur now rc) = gens"
    by (simp add: run_gens_def list_generations_def)
  show ?thesis
  proof (cases "dry_mode a")
    case True
    from dry_success [OF True, of "example_env gens cur now rc" fresh_world empty_state Map.empty Map.empty]
      g assms
    show ?thesis by auto
  next
    case False
    from apply_success [OF False, of "example_env gens cur now rc" fresh_world empty_state
        Map.empty Map.empty "[]"] g assms
    show ?thesis by simp
  qed
qed

lemma three_gens_facts:
  "sort_key snd three_gens = three_gens" "three_gens \<noteq> []" "distinct (map fst three_gens)"
  "snd (last three_gens) - 864000 < floor_hour (snd (hd three_gens))"
  by (simp_all add: three_gens_def floor_hour_def)

lemma zero_gens_facts:
  "sort_key snd zero_gens = zero_gens" "zero_gens \<noteq> []" "distinct (map fst zero_gens)"
  "snd (last zero_gens) - 864000 < floor_hour (snd (hd zero_gens))"
  by (simp_all add: zero_gens_def floor_hour_def)

lemma report_three_none:
  "keeps_report three_gens None None (final_keeps three_gens None None [] {}) =
     \<lparr>plan_delete = [1], kept_reasons = [(2, ''daily''), (3, ''<=3d'')]\<rparr>"
  by code_simp

lemma report_three_one:
  "keeps_report three_gens (Some 1) (Some 1) (final_keeps three_gens (Some 1) (Some 1) [] {}) =
     \<lparr>plan_delete = [], kept_reasons = [(1, ''booted-previous''), (2, ''daily''), (3, ''<=3d'')]\<rparr>"
  by code_simp

lemma report_three_nine:
  "keeps_report three_gens (Some 9) (Some 8) (final_keeps three_gens (Some 9) (Some 8) [] {}) =
     \<lparr>plan_delete = [1],
      kept_reasons = [(2, ''daily''), (3, ''<=3d''), (8, ''booted-previous''), (9, ''booted-current'')]\<rparr>"
  by code_simp

lemma report_three_zero:
  "keeps_report three_gens (Some 0) (Some 1) (final_keeps three_gens (Some 0) (Some 1) [] {}) =
     \<lparr>plan_delete = [], kept_reasons = [(1, ''booted-previous''), (2, ''daily''), (3, ''<=3d'')]\<rparr>"
  by code_simp

lemma report_zero_gens:
  "keeps_report zero_gens (Some 0) (Some 1) (final_keeps zero_gens (Some 0) (Some 1) [] {}) =
     \<lparr>plan_delete = [], kept_reasons = [(1, ''booted-previous''), (2, ''daily''), (3, ''<=3d'')]\<rparr>"
  by code_simp

section \<open>Protected ids and repeated runs\<close>

lemma main_ok_file:
  assumes "status (main a e w) = Inr 0" and "printed (main a e w) = Some rep"
  shows "\<exists>st'. state_file (world_after (main a e w)) = Json st' \<and>
           st_kept st' = Some (map_of (kept_reasons rep))"
proof -
  from main_ok [OF assms] obtain st grid recs meta where
    h: "run_gens e \<noteq> []" "load_state (state_file w) = Inr (Document st)"
      "kernel_smooth (run_points e) (arg_sigma_hours a) = Inr grid"
      "st_gens st = Some recs" "st_meta st = Some meta" "writable w"
      "rep = report_of (run_plan e grid (pinned_of st) recs)"
    by blast
  let ?S = "saved_state e st (run_plan e grid (pinned_of st) recs) meta"
  let ?w1 = "w\<lparr>state_file := Json ?S\<rparr>"
  have k: "st_kept ?S = Some (map_of (kept_reasons rep))"
    by (simp add: h(7) kept_of_eq)
  show ?thesis
  proof (cases "dry_mode a")
    case True
    with main_run [OF h(1-6)] k show ?thesis by simp
  next
    case False
    with main_run [OF h(1-6)] h(7) have m: "main a e w = perform_deletion e ?w1 rep" by simp
    from h(6) have "writable ?w1" "state_file ?w1 = Json ?S" by simp_all
    note pd = perform_deletion_saved [OF this, of e rep]
    show ?thesis
    proof (cases "plan_delete rep = []")
      case True
      with m pd k show ?thesis by simp
    next
      case False
      with assms(1) m pd obtain deleted where "st_deleted ?S = Some deleted"
        by (cases "st_deleted ?S") auto
      with False m pd k show ?thesis by simp
    qed
  qed
qed

lemma printed_plan:
  assumes "printed (main a e w) = Some rep"
  shows "\<exists>grid pinned.
           rep = keeps_report (run_gens e) (fst (booted_generations (current_link e)))
                   (snd (booted_generations (current_link e)))
                   (final_keeps (run_gens e) (fst (booted_generations (current_link e)))
                      (snd (booted_generations (current_link e))) grid pinned) \<and>
           (\<exists>recs. plan_delete rep =
              pl_delete (make_plan (run_gens e) (fst (booted_generations (current_link e)))
                (snd (booted_generations (current_link e))) (run_scores e) grid pinned recs))"
proof -
  from main_printed [OF assms] obtain st grid recs where
    "rep = report_of (run_plan e grid (pinned_of st) recs)" by blast
  then show ?thesis
    by (auto simp: report_of_run_plan run_keeps_def run_plan_def report_of_def make_plan_eq
        keeps_report_def)
qed

text \<open>
  In every run that reports a plan, over generations with distinct ids, the current id and
  the previous id are absent from the final delete list, whatever the tier rules select.
\<close>

lemma protected_absent_from_plan:
  assumes "distinct (map fst (listing e))" and "printed (main a e w) = Some rep"
    and "current_link e = Some c"
  shows "c \<notin> set (plan_delete rep) \<and> max (c - 1) 1 \<notin> set (plan_delete rep)"
proof -
  from assms(3) have b: "fst (booted_generations (current_link e)) = Some c"
    "snd (booted_generations (current_link e)) = Some (max (c - 1) 1)"
    by (simp_all add: booted_generations_def)
  from assms(1) have d: "distinct (map fst (run_gens e))"
    by (simp add: run_gens_def distinct_list_generations)
  from printed_plan [OF assms(2)] b obtain grid pinned recs where
    p: "plan_delete rep =
          pl_delete (make_plan (run_gens e) (Some c) (Some (max (c - 1) 1)) (run_scores e) grid pinned recs)"
    by auto
  from protected_not_deleted [OF d, of "Some c" c "Some (max (c - 1) 1)"]
    protected_not_deleted [OF d, of "Some c" "max (c - 1) 1" "Some (max (c - 1) 1)"]
  show ?thesis unfolding p by simp
qed

text \<open>
  Generation 1 is deleted when no id is protected, and is not when it is the current one.
\<close>

lemma protected_absent_from_plan_example:
  "distinct (map fst (listing (example_env three_gens (Some 1) 400000 0))) \<and>
   current_link (example_env three_gens (Some 1) 400000 0) = Some 1 \<and>
   printed (main default_args (example_env three_gens None 400000 0) fresh_world) =
     Some \<lparr>plan_delete = [1], kept_reasons = [(2, ''daily''), (3, ''<=3d'')]\<rparr> \<and>
   printed (main default_args (example_env three_gens (Some 1) 400000 0) fresh_world) =
     Some \<lparr>plan_delete = [],
           kept_reasons = [(1, ''booted-previous''), (2, ''daily''), (3, ''<=3d'')]\<rparr> \<and>
   1 \<notin> set (plan_delete \<lparr>plan_delete = [],
           kept_reasons = [(1, ''booted-previous''), (2, ''daily''), (3, ''<=3d'')]\<rparr>)"
proof -
  have p1: "printed (main default_args (example_env three_gens (Some 1) 400000 0) fresh_world) =
     Some \<lparr>plan_delete = [],
           kept_reasons = [(1, ''booted-previous''), (2, ''daily''), (3, ''<=3d'')]\<rparr>"
    using printed_example [OF three_gens_facts(1,2,4), of default_args "Some 1" 400000 0]
    by (simp add: booted_generations_def report_three_one)
  have p0: "printed (main default_args (example_env three_gens None 400000 0) fresh_world) =
     Some \<lparr>plan_delete = [1], kept_reasons = [(2, ''daily''), (3, ''<=3d'')]\<rparr>"
    using printed_example [OF three_gens_facts(1,2,4), of default_args None 400000 0]
    by (simp add: booted_generations_def report_three_none)
  from protected_absent_from_plan [OF _ p1, of 1] three_gens_facts(3) p0 p1
  show ?thesis by simp
qed

text \<open>
  Claim C9: two runs on the same generations, the same protected ids, the same raw features
  and the same bandwidth, from persisted states with the same pinned ids, report the same
  keep map and the same delete list.
\<close>

theorem replan_same_partition:
  assumes "printed (main a e w) = Some rep" and "printed (main a' e' w') = Some rep'"
    and "listing e' = listing e" and "current_link e' = current_link e"
    and "closure_paths e' = closure_paths e" and "git_lines_delta e' = git_lines_delta e"
    and "arg_sigma_hours a' = arg_sigma_hours a"
    and "load_state (state_file w) = Inr (Document st)" and "load_state (state_file w') = Inr (Document st')"
    and "pinned_of st' = pinned_of st"
  shows "rep' = rep"
proof -
  from assms(3,5,6) have same: "run_gens e' = run_gens e" "run_points e' = run_points e"
    by (simp_all add: run_gens_def run_points_def run_scores_def)
  from main_printed [OF assms(1)] assms(8) obtain grid recs where
    1: "kernel_smooth (run_points e) (arg_sigma_hours a) = Inr grid"
      "rep = report_of (run_plan e grid (pinned_of st) recs)"
    by auto
  from main_printed [OF assms(2)] assms(9) obtain grid' recs' where
    2: "kernel_smooth (run_points e') (arg_sigma_hours a') = Inr grid'"
      "rep' = report_of (run_plan e' grid' (pinned_of st') recs')"
    by auto
  from 1(1) 2(1) same assms(7) have "grid' = grid" by simp
  with 1(2) 2(2) same assms(4,10) show ?thesis
    by (simp add: report_of_run_plan run_keeps_def)
qed

text \<open>
  A second run, on the state the first run has written, plans what the first run planned.
\<close>

theorem replan_same_partition_witness:
  "\<exists>rep. printed (main default_args (example_env three_gens None 400000 0) fresh_world) = Some rep \<and>
         printed (main apply_args (example_env three_gens None 500000 1)
                    (world_after (main default_args (example_env three_gens None 400000 0) fresh_world)))
           = Some rep \<and>
         plan_delete rep = [1]"
proof -
  let ?e = "example_env three_gens None 400000 0" and ?e' = "example_env three_gens None 500000 1"
  have g: "run_gens ?e = three_gens" "run_gens ?e' = three_gens"
    using three_gens_facts(1) by (simp_all add: run_gens_def list_generations_def)
  from dry_success [of default_args ?e fresh_world empty_state Map.empty Map.empty]
    g three_gens_facts(2)
  obtain grid where first: "main default_args ?e fresh_world =
      \<lparr>world_after = fresh_world\<lparr>state_file :=
           Json (saved_state ?e empty_state (run_plan ?e grid (pinned_of empty_state) Map.empty) Map.empty)\<rparr>,
       printed = Some (report_of (run_plan ?e grid (pinned_of empty_state) Map.empty)),
       stderr_shown = False, status = Inr 0\<rparr>"
    by auto
  let ?S = "saved_state ?e empty_state (run_plan ?e grid (pinned_of empty_state) Map.empty) Map.empty"
  let ?w' = "world_after (main default_args ?e fresh_world)"
  from first have w': "?w' = fresh_world\<lparr>state_file := Json ?S\<rparr>" by simp
  then have l': "load_state (state_file ?w') = Inr (Document ?S)" by (simp add: load_state_def)
  have pin: "pinned_of ?S = pinned_of empty_state" by (simp add: pinned_of_def)
  have p: "printed (main default_args ?e fresh_world) =
      Some \<lparr>plan_delete = [1], kept_reasons = [(2, ''daily''), (3, ''<=3d'')]\<rparr>"
    using printed_example [OF three_gens_facts(1,2,4), of default_args None 400000 0]
    by (simp add: booted_generations_def report_three_none)
  from printed_recent [of ?e' ?w' ?S _ apply_args] l' g three_gens_facts
  obtain rep' where p': "printed (main apply_args ?e' ?w') = Some rep'" by auto
  from replan_same_partition [OF p p' _ _ _ _ _ _ l' pin]
  have "rep' = \<lparr>plan_delete = [1], kept_reasons = [(2, ''daily''), (3, ''<=3d'')]\<rparr>"
    by simp
  with p p' show ?thesis by simp
qed

section \<open>Deletion history and the dry-run mode\<close>

text \<open>
  Claim C2, as the code has it: outside the dry-run mode, a run that ends normally has
  appended the whole planned delete list to the persisted deletion history, whatever the
  exit code of the delete command; a nonzero exit code is only shown on the error output.
\<close>

theorem apply_appends_history:
  assumes "arg_apply a" and "\<not> arg_dry_run a"
    and "status (main a e w) = Inr 0" and "printed (main a e w) = Some rep"
  shows "deleted_history (state_file (world_after (main a e w))) =
           deleted_history (state_file w) @ plan_delete rep \<and>
         stderr_shown (main a e w) = (plan_delete rep \<noteq> [] \<and> delete_returncode e \<noteq> 0)"
proof -
  from assms(1,2) have "\<not> dry_mode a" by (simp add: dry_mode_def)
  from apply_history [OF this assms(3,4)] show ?thesis by simp
qed

lemma failed_deletion_run:
  "status (main apply_args (example_env three_gens None 400000 1) fresh_world) = Inr 0 \<and>
   printed (main apply_args (example_env three_gens None 400000 1) fresh_world) =
     Some \<lparr>plan_delete = [1], kept_reasons = [(2, ''daily''), (3, ''<=3d'')]\<rparr>"
  using printed_example [OF three_gens_facts(1,2,4), of apply_args None 400000 1]
    status_example [OF three_gens_facts(1,2), of apply_args None 400000 1]
  by (simp add: booted_generations_def report_three_none)

text \<open>
  The delete command returns 1; the history, empty before the run, holds generation 1
  after it.
\<close>

theorem failed_deletion_counterexample:
  "delete_returncode (example_env three_gens None 400000 1) = 1 \<and>
   deleted_history (state_file fresh_world) = [] \<and>
   deleted_history
     (state_file (world_after (main apply_args (example_env three_gens None 400000 1) fresh_world)))
     = [1]"
proof -
  have "\<not> dry_mode apply_args" by simp
  from apply_history [OF this conjunct1 [OF failed_deletion_run] conjunct2 [OF failed_deletion_run]]
  show ?thesis by (simp add: deleted_history_def)
qed

theorem apply_appends_history_witness:
  "arg_apply apply_args \<and> \<not> arg_dry_run apply_args \<and>
   status (main apply_args (example_env three_gens None 400000 1) fresh_world) = Inr 0 \<and>
   printed (main apply_args (example_env three_gens None 400000 1) fresh_world) =
     Some \<lparr>plan_delete = [1], kept_reasons = [(2, ''daily''), (3, ''<=3d'')]\<rparr> \<and>
   deleted_history
     (state_file (world_after (main apply_args (example_env three_gens None 400000 1) fresh_world)))
     = deleted_history (state_file fresh_world) @ [1] \<and>
   stderr_shown (main apply_args (example_env three_gens None 400000 1) fresh_world)"
proof -
  have a: "arg_apply apply_args" "\<not> arg_dry_run apply_args" by (simp_all add: apply_args_def)
  from apply_appends_history [OF a conjunct1 [OF failed_deletion_run] conjunct2 [OF failed_deletion_run]]
    a failed_deletion_run
  show ?thesis by simp
qed

lemma main_no_generations:
  assumes "list_generations (listing e) = []"
  shows "main a e w = \<lparr>world_after = w, printed = None, stderr_shown = False, status = Inr 0\<rparr>"
  using assms by (simp add: main_def Let_def)

text \<open>
  A run in the dry-run mode on an empty listing returns at once: on a machine without a
  state file there is still none after the run.
\<close>

theorem dry_run_no_write_counterexample:
  "arg_apply default_args = False \<and>
   status (main default_args (example_env [] None 400000 0) fresh_world) = Inr 0 \<and>
   state_file (world_after (main default_args (example_env [] None 400000 0) fresh_world)) = NoFile"
  using main_no_generations [of "example_env [] None 400000 0" default_args fresh_world]
  by (simp add: list_generations_def default_args_def)

text \<open>
  Claim C5, as the code has it: in the dry-run mode a run never calls the delete command
  and leaves the persisted deletion history as it was. On an empty listing it returns at
  once and writes nothing. When there are generations (with distinct ids), the bandwidth is
  not 0, and the state loads as a document with its \<open>gens\<close> and \<open>meta\<close> and can be written,
  the run ends normally and has written a state document with the timestamp and the score
  of every generation and with the reported keep map and its reasons; \<open>deleted\<close> and
  \<open>pinned\<close> are as they were loaded.
\<close>

theorem dry_run_effects:
  assumes "arg_dry_run a \<or> \<not> arg_apply a"
  shows "delete_calls (world_after (main a e w)) = delete_calls w \<and>
         deleted_history (state_file (world_after (main a e w))) = deleted_history (state_file w) \<and>
         (list_generations (listing e) = [] \<longrightarrow>
          main a e w = \<lparr>world_after = w, printed = None, stderr_shown = False, status = Inr 0\<rparr>) \<and>
         (list_generations (listing e) \<noteq> [] \<longrightarrow> distinct (map fst (listing e)) \<longrightarrow>
          arg_sigma_hours a \<noteq> 0 \<longrightarrow> writable w \<longrightarrow>
          load_state (state_file w) = Inr (Document st) \<longrightarrow> st_gens st \<noteq> None \<longrightarrow> st_meta st \<noteq> None \<longrightarrow>
          (\<exists>st' recs rep.
             status (main a e w) = Inr 0 \<and> printed (main a e w) = Some rep \<and>
             state_file (world_after (main a e w)) = Json st' \<and>
             st_deleted st' = st_deleted st \<and> st_pinned st' = st_pinned st \<and>
             st_kept st' = Some (map_of (kept_reasons rep)) \<and>
             st_gens st' = Some recs \<and>
             (\<forall>g \<in> set (list_generations (listing e)).
                recs (fst g) =
                  Some \<lparr>rec_ts = snd g,
                        rec_score =
                          dict_get (scores (closure_paths e) (git_lines_delta e)
                                      (list_generations (listing e))) (fst g) 0\<rparr>)))"
proof -
  from assms have dry: "dry_mode a" by (simp add: dry_mode_def)
  have "\<exists>st' recs rep.
             status (main a e w) = Inr 0 \<and> printed (main a e w) = Some rep \<and>
             state_file (world_after (main a e w)) = Json st' \<and>
             st_deleted st' = st_deleted st \<and> st_pinned st' = st_pinned st \<and>
             st_kept st' = Some (map_of (kept_reasons rep)) \<and>
             st_gens st' = Some recs \<and>
             (\<forall>g \<in> set (list_generations (listing e)).
                recs (fst g) =
                  Some \<lparr>rec_ts = snd g,
                        rec_score =
                          dict_get (scores (closure_paths e) (git_lines_delta e)
                                      (list_generations (listing e))) (fst g) 0\<rparr>)"
    if h: "list_generations (listing e) \<noteq> []" "distinct (map fst (listing e))"
      "arg_sigma_hours a \<noteq> 0" "writable w" "load_state (state_file w) = Inr (Document st)"
      "st_gens st \<noteq> None" "st_meta st \<noteq> None"
  proof -
    from h(6,7) obtain recs0 meta where sm: "st_gens st = Some recs0" "st_meta st = Some meta"
      by auto
    from h(1) have ne: "run_gens e \<noteq> []" by (simp add: run_gens_def)
    from dry_success [OF dry ne h(5) sm h(4) h(3)] obtain grid where
      m: "main a e w =
            \<lparr>world_after = w\<lparr>state_file := Json (saved_state e st (run_plan e grid (pinned_of st) recs0) meta)\<rparr>,
             printed = Some (report_of (run_plan e grid (pinned_of st) recs0)),
             stderr_shown = False, status = Inr 0\<rparr>"
      by blast
    from h(2) have d: "distinct (map fst (run_gens e))"
      by (simp add: run_gens_def distinct_list_generations)
    have "record_gens (run_scores e) (run_gens e) recs0 (fst g) =
            Some \<lparr>rec_ts = snd g, rec_score = dict_get (run_scores e) (fst g) 0\<rparr>"
      if "g \<in> set (run_gens e)" for g
      using record_gens_distinct [OF d, of "fst g" "snd g"] that by simp
    then show ?thesis
      unfolding m by (simp add: run_plan_gens kept_of_eq run_gens_def run_scores_def)
  qed
  with dry_frame [OF dry, of e w] main_no_generations [of e a w] show ?thesis by blast
qed

theorem dry_run_effects_witness:
  "(arg_dry_run default_args \<or> \<not> arg_apply default_args) \<and>
   list_generations (listing (example_env three_gens None 400000 0)) \<noteq> [] \<and>
   distinct (map fst (listing (example_env three_gens None 400000 0))) \<and>
   arg_sigma_hours default_args \<noteq> 0 \<and> writable fresh_world \<and>
   load_state (state_file fresh_world) = Inr (Document empty_state) \<and>
   st_gens empty_state \<noteq> None \<and> st_meta empty_state \<noteq> None \<and>
   delete_calls (world_after (main default_args (example_env three_gens None 400000 0) fresh_world)) = [] \<and>
   (\<exists>st' recs.
      status (main default_args (example_env three_gens None 400000 0) fresh_world) = Inr 0 \<and>
      state_file (world_after (main default_args (example_env three_gens None 400000 0) fresh_world))
        = Json st' \<and>
      st_deleted st' = Some [] \<and>
      st_kept st' = Some (map_of [(2, ''daily''), (3, ''<=3d'')]) \<and>
      st_gens st' = Some recs \<and> rec_ts (the (recs 2)) = 3600)"
proof -
  let ?e = "example_env three_gens None 400000 0"
  have g: "list_generations (listing ?e) = three_gens"
    using three_gens_facts(1) by (simp add: list_generations_def)
  have p: "printed (main default_args ?e fresh_world) =
      Some \<lparr>plan_delete = [1], kept_reasons = [(2, ''daily''), (3, ''<=3d'')]\<rparr>"
    using printed_example [OF three_gens_facts(1,2,4), of default_args None 400000 0]
    by (simp add: booted_generations_def report_three_none)
  have mem: "(2, 3600) \<in> set three_gens" by (simp add: three_gens_def)
  have a: "arg_dry_run default_args \<or> \<not> arg_apply default_args" by (simp add: default_args_def)
  from dry_run_effects [OF a, of ?e fresh_world empty_state] g three_gens_facts p mem a
  show ?thesis by (fastforce simp: empty_state_def)
qed

section \<open>Protected ids in the keep map\<close>

text \<open>
  When a current id \<open>c\<close> is known, the previous id is \<open>max (c - 1) 1\<close>; the previous id is
  in the reported keep map, and so is every current id other than 0, whether or not they
  occur among the generations; after a run that ends normally the persisted kept map is the
  reported one.
\<close>

lemma protected_ids_kept:
  assumes "current_link e = Some c" and "printed (main a e w) = Some rep"
  shows "booted_generations (current_link e) = (Some c, Some (max (c - 1) 1)) \<and>
         (c \<noteq> 0 \<longrightarrow> c \<in> fst ` set (kept_reasons rep)) \<and>
         max (c - 1) 1 \<in> fst ` set (kept_reasons rep) \<and>
         (status (main a e w) = Inr 0 \<longrightarrow>
          (\<exists>st'. state_file (world_after (main a e w)) = Json st' \<and>
                 st_kept st' = Some (map_of (kept_reasons rep))))"
proof -
  from assms(1) have b: "booted_generations (current_link e) = (Some c, Some (max (c - 1) 1))"
    by (simp add: booted_generations_def)
  from printed_plan [OF assms(2)] b obtain grid pinned where
    "rep = keeps_report (run_gens e) (Some c) (Some (max (c - 1) 1))
             (final_keeps (run_gens e) (Some c) (Some (max (c - 1) 1)) grid pinned)"
    by auto
  with kept_reasons_keys [of "run_gens e" "Some c" "Some (max (c - 1) 1)" grid pinned]
  have k: "fst ` set (kept_reasons rep) =
             fst (final_keeps (run_gens e) (Some c) (Some (max (c - 1) 1)) grid pinned)"
    by simp
  have "max (c - 1) 1 \<noteq> 0" by simp
  from booted_in_final_keeps(2) [OF refl this]
  have p: "max (c - 1) 1 \<in> fst ` set (kept_reasons rep)" unfolding k .
  from booted_in_final_keeps(1) [OF refl]
  have c: "c \<noteq> 0 \<longrightarrow> c \<in> fst ` set (kept_reasons rep)" unfolding k by blast
  from main_ok_file [OF _ assms(2)] b c p show ?thesis by blast
qed

text \<open>
  With the current id 9, the keep map holds 9 and 8, and neither is a generation of the
  listing.
\<close>

lemma protected_ids_kept_example:
  "current_link (example_env three_gens (Some 9) 400000 0) = Some 9 \<and>
   printed (main default_args (example_env three_gens (Some 9) 400000 0) fresh_world) =
     Some \<lparr>plan_delete = [1],
           kept_reasons = [(2, ''daily''), (3, ''<=3d''), (8, ''booted-previous''),
                           (9, ''booted-current'')]\<rparr> \<and>
   booted_generations (Some 9) = (Some 9, Some 8) \<and>
   9 \<in> fst ` set [(2 :: int, ''daily''), (3, ''<=3d''), (8, ''booted-previous''), (9, ''booted-current'')] \<and>
   8 \<in> fst ` set [(2 :: int, ''daily''), (3, ''<=3d''), (8, ''booted-previous''), (9, ''booted-current'')] \<and>
   9 \<notin> fst ` set (listing (example_env three_gens (Some 9) 400000 0)) \<and>
   8 \<notin> fst ` set (listing (example_env three_gens (Some 9) 400000 0)) \<and>
   (\<exists>st'. state_file (world_after (main default_args (example_env three_gens (Some 9) 400000 0)
                                     fresh_world)) = Json st' \<and>
          st_kept st' = Some (map_of [(2, ''daily''), (3, ''<=3d''), (8, ''booted-previous''),
                                      (9, ''booted-current'')]))"
proof -
  let ?e = "example_env three_gens (Some 9) 400000 0"
  have c: "current_link ?e = Some 9" by simp
  have p: "printed (main default_args ?e fresh_world) =
     Some \<lparr>plan_delete = [1],
           kept_reasons = [(2, ''daily''), (3, ''<=3d''), (8, ''booted-previous''),
                           (9, ''booted-current'')]\<rparr>"
    using printed_example [OF three_gens_facts(1,2,4), of default_args "Some 9" 400000 0]
    by (simp add: booted_generations_def report_three_nine)
  have s: "status (main default_args ?e fresh_world) = Inr 0"
    using status_example [OF three_gens_facts(1,2), of default_args "Some 9" 400000 0] by simp
  have l: "9 \<notin> fst ` set (listing ?e)" "8 \<notin> fst ` set (listing ?e)"
    by (simp_all add: three_gens_def)
  from protected_ids_kept [OF c p] s p l show ?thesis by simp
qed

section \<open>The current id 0\<close>

text \<open>
  \<open>booted_generations\<close> takes the current id 0 as known (\<open>current is not None\<close>) and gives
  the previous id 1, and the delete list is cleared of it (\<open>if cur in delete_ids\<close>); the
  rule that keeps the booted generations tests \<open>if cur:\<close>, which is false for 0.
\<close>

lemma zero_run:
  "printed (main default_args (example_env zero_gens (Some 0) 400000 0) fresh_world) =
     Some \<lparr>plan_delete = [],
           kept_reasons = [(1, ''booted-previous''), (2, ''daily''), (3, ''<=3d'')]\<rparr> \<and>
   status (main default_args (example_env zero_gens (Some 0) 400000 0) fresh_world) = Inr 0"
  using printed_example [OF zero_gens_facts(1,2,4), of default_args "Some 0" 400000 0]
    status_example [OF zero_gens_facts(1,2), of default_args "Some 0" 400000 0]
  by (simp add: booted_generations_def report_zero_gens)

text \<open>
  Claim C1 says that a protected id is added to the keep-set at the start of planning and
  is absent from the final delete list. With the current id 0, the id of a listed
  generation, the keep-set after the rule for the booted generations holds the previous id
  1 only; the run reports the id 0 neither in the delete list nor in the keep map.
\<close>

theorem current_zero_keep_set:
  "fst (booted_generations (Some 0)) = Some 0 \<and>
   fst (keep_booted (Some 0) (Some 1) ({}, Map.empty)) = {1} \<and>
   printed (main default_args (example_env zero_gens (Some 0) 400000 0) fresh_world) =
     Some \<lparr>plan_delete = [],
           kept_reasons = [(1, ''booted-previous''), (2, ''daily''), (3, ''<=3d'')]\<rparr>"
  using zero_run by (simp add: booted_generations_def keep_booted_def keep_add_def)

text \<open>
  Claim C10 says that, whenever a current id is known, both protected ids are added to the
  keep-set and to the persisted kept map. With the current id 0 the previous id is 1, and
  the kept map that the run persists has the previous id 1 and no entry for the current
  id 0.
\<close>

theorem current_zero_kept_map:
  "booted_generations (Some 0) = (Some 0, Some 1) \<and>
   status (main default_args (example_env zero_gens (Some 0) 400000 0) fresh_world) = Inr 0 \<and>
   (\<exists>st'. state_file (world_after (main default_args (example_env zero_gens (Some 0) 400000 0)
                                     fresh_world)) = Json st' \<and>
          st_kept st' =
            Some (map_of [(1, ''booted-previous''), (2, ''daily''), (3, ''<=3d'')])) \<and>
   map_of [(1 :: int, ''booted-previous''), (2, ''daily''), (3, ''<=3d'')] 0 = None"
  using main_ok_file [OF conjunct2 [OF zero_run] conjunct1 [OF zero_run]] zero_run
  by (simp add: booted_generations_def)

end
